theory Spec2Isabelle
  imports Complex_Main
begin

section \<open>Text primitives of the Python runtime\<close>

text \<open>
  Cell texts are Python \<^verbatim>\<open>str\<close> values. They are modelled as \<^typ>\<open>string\<close>, every
  \<^typ>\<open>char\<close> read as one code point in the range U+0000..U+00FF. In that range the
  characters for which \<^verbatim>\<open>str.isspace\<close> holds, and which \<^verbatim>\<open>str.strip()\<close> removes, are
  9..13, 28..32, 133 and 160.
\<close>

definition isspace :: "char \<Rightarrow> bool" where
  "isspace c = (of_char c \<in> set [9, 10, 11, 12, 13, 28, 29, 30, 31, 32, 133, 160 :: nat])"

definition strip :: "string \<Rightarrow> string" where
  "strip s = rev (dropWhile isspace (rev (dropWhile isspace s)))"

text \<open>\<^verbatim>\<open>s.replace(old, new)\<close> for a one-character \<^verbatim>\<open>old\<close>.\<close>

definition replace_char :: "char \<Rightarrow> string \<Rightarrow> string \<Rightarrow> string" where
  "replace_char old new s = concat (map (\<lambda>c. if c = old then new else [c]) s)"

text \<open>\<^verbatim>\<open>x or None\<close> on a string: the empty string is falsy.\<close>

definition or_none :: "string \<Rightarrow> string option" where
  "or_none s = (if s = [] then None else Some s)"

datatype error =
    HTTPError
  | URLError
  | SocketTimeout
  | RetryError error
  | AttributeError
  | IndexError
  | ValueError
  | StorageError
  | OSError

subsection \<open>The builtins \<^verbatim>\<open>float\<close> and \<^verbatim>\<open>int\<close> on text\<close>

text \<open>
  \<^verbatim>\<open>float(s)\<close> accepts, between optional surrounding whitespace, a sign followed by
  \<^verbatim>\<open>inf\<close>, \<^verbatim>\<open>infinity\<close> or \<^verbatim>\<open>nan\<close> in any letter case, or a decimal numeral with an
  optional fraction and exponent; a single underscore may separate two digits. Anything
  else raises \<^verbatim>\<open>ValueError\<close>. A finite result is represented by the exact rational value
  of the numeral: rounding to the nearest binary double, with its overflow to infinity
  (\<^verbatim>\<open>1e400\<close>) and underflow to zero (\<^verbatim>\<open>1e-400\<close>), is not modelled. Which texts are
  accepted does not depend on it; rounding never turns a non-negative value into a
  negative one; and the numerals evaluated below are exactly representable.
\<close>

datatype pyfloat = Finite rat | Infinity bool | NaN

text \<open>The comparison \<^verbatim>\<open>x >= 0\<close> on floats; it is false for \<^verbatim>\<open>nan\<close>.\<close>

fun float_ge0 :: "pyfloat \<Rightarrow> bool" where
  "float_ge0 (Finite q) = (0 \<le> q)"
| "float_ge0 (Infinity neg) = (\<not> neg)"
| "float_ge0 NaN = False"

text \<open>
  The whitespace the numeric builtins skip at both ends: the ASCII set 9..13 and 32 of
  \<^verbatim>\<open>Py_ISSPACE\<close>, and the non-ASCII spaces 133 and 160, which are first rewritten to a
  blank. The separators 28..31 are not skipped.
\<close>

definition num_space :: "char \<Rightarrow> bool" where
  "num_space c = (of_char c \<in> set [9, 10, 11, 12, 13, 32, 133, 160 :: nat])"

definition num_strip :: "string \<Rightarrow> string" where
  "num_strip s = rev (dropWhile num_space (rev (dropWhile num_space s)))"

definition is_digit :: "char \<Rightarrow> bool" where
  "is_digit c = (48 \<le> (of_char c :: nat) \<and> (of_char c :: nat) \<le> 57)"

definition digit_val :: "char \<Rightarrow> nat" where
  "digit_val c = of_char c - 48"

definition digits_val :: "string \<Rightarrow> nat" where
  "digits_val ds = foldl (\<lambda>a d. 10 * a + digit_val d) 0 ds"

text \<open>
  Underscores: each one must stand directly after a digit and directly before a digit.
  The first argument is the previous character (initially the null character).
\<close>

fun underscores_ok :: "char \<Rightarrow> string \<Rightarrow> bool" where
  "underscores_ok prev [] = (prev \<noteq> CHR ''_'')"
| "underscores_ok prev (c # cs) =
     ((if c = CHR ''_'' then is_digit prev else prev \<noteq> CHR ''_'' \<or> is_digit c)
      \<and> underscores_ok c cs)"

definition split_sign :: "string \<Rightarrow> bool \<times> string" where
  "split_sign s =
     (case s of
        [] \<Rightarrow> (False, [])
      | c # r \<Rightarrow> if c = CHR ''-'' then (True, r)
                 else if c = CHR ''+'' then (False, r)
                 else (False, s))"

definition lower :: "char \<Rightarrow> char" where
  "lower c = (if 65 \<le> (of_char c :: nat) \<and> (of_char c :: nat) \<le> 90
              then char_of (of_char c + (32 :: nat)) else c)"

text \<open>The exponent part: empty, or \<^verbatim>\<open>e\<close>/\<^verbatim>\<open>E\<close>, an optional sign and at least one digit.\<close>

definition parse_exponent :: "string \<Rightarrow> int option" where
  "parse_exponent s =
     (case s of
        [] \<Rightarrow> Some 0
      | c # r \<Rightarrow>
          if c = CHR ''e'' \<or> c = CHR ''E'' then
            (let (neg, ds) = split_sign r in
             if ds \<noteq> [] \<and> list_all is_digit ds
             then Some (if neg then - int (digits_val ds) else int (digits_val ds))
             else None)
          else None)"

definition scale10 :: "nat \<Rightarrow> int \<Rightarrow> rat" where
  "scale10 m e = (if 0 \<le> e then of_nat m * 10 ^ nat e else of_nat m / 10 ^ nat (- e))"

definition parse_decimal :: "string \<Rightarrow> rat option" where
  "parse_decimal s =
     (let ip = takeWhile is_digit s;
          r1 = dropWhile is_digit s;
          has_point = (r1 \<noteq> [] \<and> hd r1 = CHR ''.'');
          fp = (if has_point then takeWhile is_digit (tl r1) else []);
          r2 = (if has_point then dropWhile is_digit (tl r1) else r1)
      in if ip = [] \<and> fp = [] then None
         else (case parse_exponent r2 of
                 None \<Rightarrow> None
               | Some e \<Rightarrow> Some (scale10 (digits_val (ip @ fp)) (e - int (length fp)))))"

definition parse_float :: "string \<Rightarrow> pyfloat option" where
  "parse_float s =
     (let (neg, r) = split_sign s; l = map lower r
      in if l = ''inf'' \<or> l = ''infinity'' then Some (Infinity neg)
         else if l = ''nan'' then Some NaN
         else (case parse_decimal r of
                 None \<Rightarrow> None
               | Some q \<Rightarrow> Some (Finite (if neg then - q else q))))"

definition py_float :: "string \<Rightarrow> error + pyfloat" where
  "py_float s =
     (if \<not> underscores_ok (CHR 0x00) s then Inl ValueError
      else (case parse_float (num_strip (filter (\<lambda>c. c \<noteq> CHR ''_'') s)) of
              None \<Rightarrow> Inl ValueError
            | Some x \<Rightarrow> Inr x))"

text \<open>
  \<^verbatim>\<open>int(s)\<close> in base 10: surrounding whitespace, an optional sign, digits with single
  underscores between them; more than \<^verbatim>\<open>sys.get_int_max_str_digits()\<close> digits (4300 by
  default) raise \<^verbatim>\<open>ValueError\<close> as well.
\<close>

definition int_max_str_digits :: nat where
  "int_max_str_digits = 4300"

definition py_int :: "string \<Rightarrow> error + int" where
  "py_int s =
     (let (neg, ds) = split_sign (num_strip s);
          ds' = filter (\<lambda>c. c \<noteq> CHR ''_'') ds
      in if ds' \<noteq> [] \<and> list_all is_digit ds' \<and> underscores_ok (CHR 0x00) ds
            \<and> length ds' \<le> int_max_str_digits
         then Inr (if neg then - int (digits_val ds') else int (digits_val ds'))
         else Inl ValueError)"

subsection \<open>The form of the texts \<^verbatim>\<open>float\<close> accepts\<close>

text \<open>
  Written out from the grammar of \<^verbatim>\<open>float\<close>, independently of the parsing functions above,
  to state which penalty cells are rejected. A float literal is, once its underscores
  (each directly between two digits) are deleted: whitespace, an optional sign, then
  either one of the words \<^verbatim>\<open>inf\<close>, \<^verbatim>\<open>infinity\<close>, \<^verbatim>\<open>nan\<close> in any letter case or a decimal
  numeral, then whitespace. A decimal numeral is a run of digits, an optional point
  followed by a run of digits, with at least one digit in all, and an optional exponent:
  \<^verbatim>\<open>e\<close> or \<^verbatim>\<open>E\<close>, an optional sign and at least one digit.
\<close>

definition sign_prefix :: "string \<Rightarrow> bool" where
  "sign_prefix sg \<longleftrightarrow> sg = [] \<or> sg = ''+'' \<or> sg = ''-''"

definition special_word :: "string \<Rightarrow> bool" where
  "special_word b \<longleftrightarrow>
     map lower b = ''inf'' \<or> map lower b = ''infinity'' \<or> map lower b = ''nan''"

definition exponent_part :: "string \<Rightarrow> bool" where
  "exponent_part ex \<longleftrightarrow>
     ex = [] \<or>
     (\<exists>c sg ds. ex = c # sg @ ds \<and> (c = CHR ''e'' \<or> c = CHR ''E'') \<and> sign_prefix sg
        \<and> ds \<noteq> [] \<and> list_all is_digit ds)"

definition decimal_numeral :: "string \<Rightarrow> bool" where
  "decimal_numeral b \<longleftrightarrow>
     (\<exists>ip fr ex. b = ip @ fr @ ex \<and> list_all is_digit ip
        \<and> (fr = [] \<or> (\<exists>fp. fr = CHR ''.'' # fp \<and> list_all is_digit fp))
        \<and> (\<exists>d \<in> set (ip @ fr). is_digit d)
        \<and> exponent_part ex)"

definition underscores_between_digits :: "string \<Rightarrow> bool" where
  "underscores_between_digits s \<longleftrightarrow>
     (\<forall>pre post. s = pre @ CHR ''_'' # post
        \<longrightarrow> pre \<noteq> [] \<and> is_digit (last pre) \<and> post \<noteq> [] \<and> is_digit (hd post))"

definition float_literal :: "string \<Rightarrow> bool" where
  "float_literal s \<longleftrightarrow>
     underscores_between_digits s
     \<and> (\<exists>ws1 sg b ws2. filter (\<lambda>c. c \<noteq> CHR ''_'') s = ws1 @ sg @ b @ ws2
          \<and> list_all num_space ws1 \<and> list_all num_space ws2 \<and> sign_prefix sg
          \<and> (special_word b \<or> decimal_numeral b))"

section \<open>Record Normalizer\<close>

text \<open>The dictionary built for one table row (\<^verbatim>\<open>scrape_violation_tracker\<close>, both files).\<close>

record violation =
  company :: string
  current_parent :: "string option"
  current_parent_industry :: "string option"
  primary_offense_type :: string
  year :: int
  agency :: string
  penalty_amount :: pyfloat

text \<open>\<^verbatim>\<open>cols[6].text.strip().replace('$', '').replace(',', '')\<close>\<close>

definition penalty_text :: "string \<Rightarrow> string" where
  "penalty_text t = replace_char (CHR '','') [] (replace_char (CHR ''$'') [] (strip t))"

text \<open>\<^verbatim>\<open>float(penalty_text) if penalty_text else 0.0\<close>\<close>

definition normalize_penalty :: "string \<Rightarrow> error + pyfloat" where
  "normalize_penalty t =
     (let p = penalty_text t in if p = [] then Inr (Finite 0) else py_float p)"

text \<open>
  One iteration of the row loop, on the texts of the row's \<^verbatim>\<open>td\<close> cells. The subscript
  \<^verbatim>\<open>cols[6]\<close> is evaluated first and raises \<^verbatim>\<open>IndexError\<close> on a row with fewer than
  seven cells; then the penalty is parsed, then the dictionary is built, where only
  \<^verbatim>\<open>int\<close> can raise.
\<close>

definition normalize_row :: "string list \<Rightarrow> error + violation" where
  "normalize_row cols =
     (if length cols < 7 then Inl IndexError
      else (case normalize_penalty (cols ! 6) of
              Inl e \<Rightarrow> Inl e
            | Inr p \<Rightarrow>
                (case py_int (strip (cols ! 4)) of
                   Inl e \<Rightarrow> Inl e
                 | Inr y \<Rightarrow>
                     Inr \<lparr>company = strip (cols ! 0),
                          current_parent = or_none (strip (cols ! 1)),
                          current_parent_industry = or_none (strip (cols ! 2)),
                          primary_offense_type = strip (cols ! 3),
                          year = y,
                          agency = strip (cols ! 5),
                          penalty_amount = p\<rparr>)))"

section \<open>Observable effects\<close>

text \<open>
  The effects of a run are recorded as a trace: the pauses (\<^verbatim>\<open>time.sleep\<close> and the
  waits of the retry decorator, in seconds) and the calls of the logger, each with the
  values its message is formatted from.
\<close>

datatype event =
    Sleep nat
  | LogRetrying nat
  | LogNoTable nat
  | LogScraped nat nat
  | LogPageError nat error
  | LogStored nat
  | LogStoreError error
  | LogSavedLog
  | LogSaveError error
  | LogNoRecords
  | LogUnexpected error
  | LogConnected
  | LogConnectError error
  | LogConnectionFailed error
  | LogCreatedTable
  | LogCreateError error
  | LogFinished
  | LogConnectionClosed
  | LogQueryError error
  | LogStarting

section \<open>Page Fetcher\<close>

text \<open>
  What BeautifulSoup makes of a page body, as far as the scraper looks at it:
  \<^verbatim>\<open>soup.find('table', class_='views-table')\<close> is a table or \<^verbatim>\<open>None\<close>, the table's
  \<^verbatim>\<open>find('tbody')\<close> is a body or \<^verbatim>\<open>None\<close>, the body's \<^verbatim>\<open>find_all('tr')\<close> is a list of
  rows, and each row's \<^verbatim>\<open>find_all('td')\<close> is a list of cells, taken here as their
  \<^verbatim>\<open>.text\<close>.
\<close>

type_synonym row = "string list"

datatype views_table = ViewsTable (tbody: "row list option")

datatype soup = Soup (find_table: "views_table option")

text \<open>
  One execution of the body of \<^verbatim>\<open>fetch_page\<close>: the decoded page, or the exception
  \<^verbatim>\<open>urlopen\<close>, \<^verbatim>\<open>read\<close> or \<^verbatim>\<open>decode\<close> raised. A server maps the attempt number
  (from 1) to the outcome of that attempt.
\<close>

datatype response = Body soup | Raise error

type_synonym server = "nat \<Rightarrow> response"

text \<open>
  The decorator \<^verbatim>\<open>@retry(stop=stop_after_attempt(3), wait=wait_exponential(multiplier=1,
  min=2, max=10), retry=retry_if_exception_type(urllib.error.HTTPError), before_sleep=...)\<close>
  of the tenacity library. \<^verbatim>\<open>wait_exponential\<close> computes, from the number of the
  attempt that just failed,
  \<^verbatim>\<open>max(max(0, min), min(multiplier * 2 ** (attempt_number - 1), max))\<close>.
\<close>

definition wait_exponential :: "nat \<Rightarrow> nat \<Rightarrow> nat \<Rightarrow> nat \<Rightarrow> nat" where
  "wait_exponential multiplier mn mx attempt_number =
     max (max 0 mn) (min (multiplier * 2 ^ (attempt_number - 1)) mx)"

definition stop_after_attempt :: "nat \<Rightarrow> nat \<Rightarrow> bool" where
  "stop_after_attempt max_attempt_number attempt_number = (max_attempt_number \<le> attempt_number)"

text \<open>\<^verbatim>\<open>retry_if_exception_type(urllib.error.HTTPError)\<close>: an \<^verbatim>\<open>isinstance\<close> test.\<close>

fun retry_if_http_error :: "error \<Rightarrow> bool" where
  "retry_if_http_error HTTPError = True"
| "retry_if_http_error _ = False"

text \<open>
  The retrying loop from attempt \<open>n\<close> on. An exception that is not retried is re-raised
  as it is; when the stop condition holds, \<^verbatim>\<open>RetryError\<close> is raised around the last
  exception; otherwise \<^verbatim>\<open>before_sleep\<close> logs the attempt number, the loop sleeps and
  the next attempt runs.
\<close>

function fetch_attempts :: "server \<Rightarrow> nat \<Rightarrow> event list \<times> (error + soup)" where
  "fetch_attempts srv n =
     (case srv n of
        Body b \<Rightarrow> ([], Inr b)
      | Raise e \<Rightarrow>
          if \<not> retry_if_http_error e then ([], Inl e)
          else if stop_after_attempt 3 n then ([], Inl (RetryError e))
          else (let (ev, r) = fetch_attempts srv (Suc n)
                in (LogRetrying n # Sleep (wait_exponential 1 2 10 n) # ev, r)))"
  by pat_completeness auto
termination
  by (relation "measure (\<lambda>(srv, n). 3 - n)") (auto simp: stop_after_attempt_def)

definition fetch_page :: "server \<Rightarrow> event list \<times> (error + soup)" where
  "fetch_page srv = fetch_attempts srv 1"

section \<open>Pipeline Orchestrator\<close>

text \<open>
  The row loop: every normalized row is appended to the list \<open>records\<close> shared by all
  pages; the first exception leaves the loop with the list as it is then.
\<close>

fun process_rows :: "row list \<Rightarrow> violation list \<Rightarrow> violation list \<times> error option" where
  "process_rows [] records = (records, None)"
| "process_rows (r # rs) records =
     (case normalize_row r of
        Inl e \<Rightarrow> (records, Some e)
      | Inr v \<Rightarrow> process_rows rs (records @ [v]))"

text \<open>
  One iteration of the page loop of \<^verbatim>\<open>scrape_violation_tracker\<close>. The web maps a page
  number to the server answering that page's URL. Both \<^verbatim>\<open>except\<close> clauses of
  \<^verbatim>\<open>scraper.py\<close> log and continue, as the single one of \<^verbatim>\<open>main.py\<close> does. A table
  without \<^verbatim>\<open>tbody\<close> raises \<^verbatim>\<open>AttributeError\<close> on \<^verbatim>\<open>None.find_all\<close>.
\<close>

definition scrape_page :: "(nat \<Rightarrow> server) \<Rightarrow> nat \<Rightarrow> violation list \<Rightarrow> event list \<times> violation list" where
  "scrape_page web page records =
     (let (ev, r) = fetch_page (web page) in
      case r of
        Inl e \<Rightarrow> (Sleep 10 # ev @ [LogPageError page e], records)
      | Inr html \<Rightarrow>
          (case find_table html of
             None \<Rightarrow> (Sleep 10 # ev @ [LogNoTable page], records)
           | Some table \<Rightarrow>
               (case tbody table of
                  None \<Rightarrow> (Sleep 10 # ev @ [LogPageError page AttributeError], records)
                | Some rows \<Rightarrow>
                    (case process_rows rows records of
                       (records', Some e) \<Rightarrow> (Sleep 10 # ev @ [LogPageError page e], records')
                     | (records', None) \<Rightarrow>
                         (Sleep 10 # ev @ [LogScraped (length rows) page], records')))))"

fun scrape_pages :: "(nat \<Rightarrow> server) \<Rightarrow> nat list \<Rightarrow> violation list \<Rightarrow> event list \<times> violation list" where
  "scrape_pages web [] records = ([], records)"
| "scrape_pages web (page # pages) records =
     (let (ev, records') = scrape_page web page records;
          (ev', records'') = scrape_pages web pages records'
      in (ev @ ev', records''))"

text \<open>\<^verbatim>\<open>for page in range(1, 4)\<close>, starting from \<^verbatim>\<open>records = []\<close>.\<close>

definition scrape_violation_tracker :: "(nat \<Rightarrow> server) \<Rightarrow> event list \<times> violation list" where
  "scrape_violation_tracker web = scrape_pages web [1, 2, 3] []"

section \<open>Dedup Store\<close>

text \<open>
  The table \<^verbatim>\<open>violations\<close> is the list of its rows in insertion order, each row the seven
  inserted columns (the surrogate \<^verbatim>\<open>id\<close> and \<^verbatim>\<open>created_at\<close> are assigned by the engine
  and not modelled); a database without the table is \<open>None\<close>. The constraint
  \<^verbatim>\<open>UNIQUE (company, year, agency, penalty_amount)\<close> compares the four columns by
  equality of the normalized values; the engine's own coercion of column values
  (collation, rounding to the column type) is outside the model.
\<close>

type_synonym database = "violation list option"

definition unique_key :: "violation \<Rightarrow> string \<times> int \<times> string \<times> pyfloat" where
  "unique_key r = (company r, year r, agency r, penalty_amount r)"

text \<open>\<^verbatim>\<open>INSERT IGNORE INTO violations ...\<close> (\<^verbatim>\<open>INSERT OR IGNORE\<close> in \<^verbatim>\<open>scraper.py\<close>).\<close>

definition insert_ignore :: "violation list \<Rightarrow> violation \<Rightarrow> violation list" where
  "insert_ignore rows r =
     (if unique_key r \<in> set (map unique_key rows) then rows else rows @ [r])"

text \<open>
  The flag \<open>ok\<close> of the three database operations says whether the engine answers
  without raising its error class (\<^verbatim>\<open>mysql.connector.Error\<close>, \<^verbatim>\<open>sqlite3.Error\<close>); when it
  raises, the function logs and re-raises, and nothing is committed.
\<close>

definition connect_to_db :: "bool \<Rightarrow> event list \<times> (error + unit)" where
  "connect_to_db ok =
     (if ok then ([LogConnected], Inr ())
      else ([LogConnectError StorageError], Inl StorageError))"

text \<open>\<^verbatim>\<open>CREATE TABLE IF NOT EXISTS violations (...)\<close>\<close>

definition create_table :: "bool \<Rightarrow> database \<Rightarrow> event list \<times> (error + database)" where
  "create_table ok db =
     (if ok then ([LogCreatedTable], Inr (case db of None \<Rightarrow> Some [] | Some rows \<Rightarrow> Some rows))
      else ([LogCreateError StorageError], Inl StorageError))"

text \<open>
  \<^verbatim>\<open>store_records\<close>: one insert per record, then one commit. On a database without the
  table the first insert raises; with no record nothing is executed and the function
  returns. The values are taken as the engine stores them unchanged: a \<^verbatim>\<open>nan\<close> or
  infinite penalty and a year outside the range of the integer column are bound
  differently by the two engines (SQLite skips a row with a \<^verbatim>\<open>nan\<close> penalty and raises
  \<^verbatim>\<open>OverflowError\<close> on a year beyond 64 bits) and are outside the model.
\<close>

definition store_records :: "bool \<Rightarrow> database \<Rightarrow> violation list \<Rightarrow> event list \<times> (error + database)" where
  "store_records ok db records =
     (if \<not> ok then ([LogStoreError StorageError], Inl StorageError)
      else (case db of
              None \<Rightarrow>
                if records = [] then ([LogStored 0], Inr None)
                else ([LogStoreError StorageError], Inl StorageError)
            | Some rows \<Rightarrow>
                ([LogStored (length records)], Inr (Some (foldl insert_ignore rows records)))))"

text \<open>The database states reached from a database without the table.\<close>

inductive reachable :: "database \<Rightarrow> bool" where
  initial: "reachable None"
| created: "reachable db \<Longrightarrow> snd (create_table True db) = Inr db' \<Longrightarrow> reachable db'"
| stored: "reachable db \<Longrightarrow> snd (store_records True db records) = Inr db' \<Longrightarrow> reachable db'"

section \<open>Run Logger\<close>

record run_log =
  timestamp :: nat
  records_processed :: nat

text \<open>
  The log sink maps the name of a log object to its content. The name is derived from
  the clock (\<^verbatim>\<open>logs/execution-<time>.json\<close>, to the second), so a write under a name
  already in use replaces the earlier object. The flag \<open>ok\<close> says whether the write goes
  through.

  \<^verbatim>\<open>save_logs\<close> of \<^verbatim>\<open>main.py\<close> wraps the upload in \<^verbatim>\<open>try ... except Exception\<close> and logs
  the failure.
\<close>

type_synonym log_sink = "nat \<rightharpoonup> run_log"

definition save_logs :: "bool \<Rightarrow> nat \<Rightarrow> violation list \<Rightarrow> log_sink \<Rightarrow> event list \<times> log_sink" where
  "save_logs ok now records sink =
     (let log_data = \<lparr>timestamp = now, records_processed = length records\<rparr>
      in if ok then ([LogSavedLog], sink(now \<mapsto> log_data))
         else ([LogSaveError OSError], sink))"

text \<open>\<^verbatim>\<open>save_logs\<close> of \<^verbatim>\<open>scraper.py\<close> has no handler: a failing write raises.\<close>

definition save_logs_scraper :: "bool \<Rightarrow> nat \<Rightarrow> violation list \<Rightarrow> log_sink \<Rightarrow> event list \<times> (error + log_sink)" where
  "save_logs_scraper ok now records sink =
     (let log_data = \<lparr>timestamp = now, records_processed = length records\<rparr>
      in if ok then ([LogSavedLog], Inr (sink(now \<mapsto> log_data)))
         else ([], Inl OSError))"

text \<open>
  \<^verbatim>\<open>verify_results\<close> of \<^verbatim>\<open>scraper.py\<close> reads ten rows of the table and the newest log file
  back and prints them. An error of the database is logged inside the function; whatever
  listing the log directory or reading the file raises (\<open>read_fault\<close>) leaves the
  function.
\<close>

definition verify_results :: "bool \<Rightarrow> error option \<Rightarrow> event list \<times> (error + unit)" where
  "verify_results query_ok read_fault =
     (let ev = (if query_ok then [] else [LogQueryError StorageError])
      in case read_fault of None \<Rightarrow> (ev, Inr ()) | Some x \<Rightarrow> (ev, Inl x))"

section \<open>Entry points\<close>

record env =
  site :: "nat \<Rightarrow> server"
  connect_ok :: bool
  create_ok :: bool
  store_ok :: bool
  sink_ok :: bool
  now :: nat
  verify_query_ok :: bool
  verify_read_fault :: "error option"

record world =
  db :: database
  logs :: log_sink

datatype outcome = Returned | Raised error

text \<open>
  \<^verbatim>\<open>main_scraper\<close> of \<^verbatim>\<open>main.py\<close>: one \<^verbatim>\<open>try\<close> around everything, \<^verbatim>\<open>except Exception\<close>
  logging the error, \<^verbatim>\<open>finally\<close> closing the connection. Records are stored and the
  run log is saved only when \<^verbatim>\<open>records\<close> is non-empty.
\<close>

definition main_scraper :: "env \<Rightarrow> world \<Rightarrow> event list \<times> outcome \<times> world" where
  "main_scraper e w =
     (case connect_to_db (connect_ok e) of
        (ev0, Inl x) \<Rightarrow> (ev0 @ [LogUnexpected x, LogFinished], Returned, w)
      | (ev0, Inr _) \<Rightarrow>
          (case create_table (create_ok e) (db w) of
             (ev1, Inl x) \<Rightarrow> (ev0 @ ev1 @ [LogUnexpected x, LogFinished], Returned, w)
           | (ev1, Inr db1) \<Rightarrow>
               (let (ev2, records) = scrape_violation_tracker (site e) in
                if records \<noteq> [] then
                  (case store_records (store_ok e) db1 records of
                     (ev3, Inl x) \<Rightarrow>
                       (ev0 @ ev1 @ ev2 @ ev3 @ [LogUnexpected x, LogFinished], Returned,
                        w\<lparr>db := db1\<rparr>)
                   | (ev3, Inr db2) \<Rightarrow>
                       (let (ev4, sink) = save_logs (sink_ok e) (now e) records (logs w)
                        in (ev0 @ ev1 @ ev2 @ ev3 @ ev4 @ [LogFinished], Returned,
                            \<lparr>db = db2, logs = sink\<rparr>)))
                else (ev0 @ ev1 @ ev2 @ [LogNoRecords, LogFinished], Returned, w\<lparr>db := db1\<rparr>))))"

text \<open>\<^verbatim>\<open>run_scraper\<close> of \<^verbatim>\<open>main.py\<close>, the Cloud Function entry point.\<close>

definition run_scraper :: "env \<Rightarrow> world \<Rightarrow> event list \<times> (string \<times> nat) \<times> world" where
  "run_scraper e w =
     (let (ev, _, w') = main_scraper e w
      in (LogStarting # ev, (''Scraper completed.'', 200), w'))"

text \<open>
  \<^verbatim>\<open>main\<close> of \<^verbatim>\<open>scraper.py\<close>: a failed connection is logged and the function returns;
  everything after it runs under \<^verbatim>\<open>try ... finally\<close> with no \<^verbatim>\<open>except\<close>, so an exception
  leaves \<^verbatim>\<open>main\<close> after the connection is closed. Records are stored when \<^verbatim>\<open>records\<close> is
  non-empty; \<^verbatim>\<open>save_logs\<close> is called in either case, and \<^verbatim>\<open>verify_results\<close> after it.
\<close>

definition scraper_main :: "env \<Rightarrow> world \<Rightarrow> event list \<times> outcome \<times> world" where
  "scraper_main e w =
     (case connect_to_db (connect_ok e) of
        (ev0, Inl x) \<Rightarrow> (ev0 @ [LogConnectionFailed x], Returned, w)
      | (ev0, Inr _) \<Rightarrow>
          (case create_table (create_ok e) (db w) of
             (ev1, Inl x) \<Rightarrow> (ev0 @ ev1 @ [LogConnectionClosed], Raised x, w)
           | (ev1, Inr db1) \<Rightarrow>
               (let (ev2, records) = scrape_violation_tracker (site e) in
                case (if records \<noteq> [] then store_records (store_ok e) db1 records
                      else ([], Inr db1)) of
                  (ev3, Inl x) \<Rightarrow>
                    (ev0 @ ev1 @ ev2 @ ev3 @ [LogConnectionClosed], Raised x, w\<lparr>db := db1\<rparr>)
                | (ev3, Inr db2) \<Rightarrow>
                    (case save_logs_scraper (sink_ok e) (now e) records (logs w) of
                       (ev4, Inl x) \<Rightarrow>
                         (ev0 @ ev1 @ ev2 @ ev3 @ ev4 @ [LogConnectionClosed], Raised x,
                          w\<lparr>db := db2\<rparr>)
                     | (ev4, Inr sink) \<Rightarrow>
                         (case verify_results (verify_query_ok e) (verify_read_fault e) of
                            (ev5, Inl x) \<Rightarrow>
                              (ev0 @ ev1 @ ev2 @ ev3 @ ev4 @ ev5 @ [LogConnectionClosed],
                               Raised x, \<lparr>db = db2, logs = sink\<rparr>)
                          | (ev5, Inr _) \<Rightarrow>
                              (ev0 @ ev1 @ ev2 @ ev3 @ ev4 @ ev5 @ [LogConnectionClosed],
                               Returned, \<lparr>db = db2, logs = sink\<rparr>))))))"

section \<open>Sample data\<close>

text \<open>The row of the end-to-end scenario, and the record it normalizes to.\<close>

definition acme_row :: row where
  "acme_row = [''Acme Co'', [], [], ''Pollution'', ''2019'', ''EPA'', ''$1,250.00'']"

definition acme :: violation where
  "acme = \<lparr>company = ''Acme Co'', current_parent = None, current_parent_industry = None,
           primary_offense_type = ''Pollution'', year = 2019, agency = ''EPA'',
           penalty_amount = Finite 1250\<rparr>"

text \<open>The same violation listed under a parent company.\<close>

definition acme_with_parent :: violation where
  "acme_with_parent = acme\<lparr>current_parent := Some ''Acme Holdings''\<rparr>"

definition bolt_row :: row where
  "bolt_row = [''  Bolt Inc '', ''Bolt Group'', '' Energy'', ''Safety'', '' 2021'', ''OSHA'', '' $300 '']"

definition bolt :: violation where
  "bolt = \<lparr>company = ''Bolt Inc'', current_parent = Some ''Bolt Group'',
           current_parent_industry = Some ''Energy'', primary_offense_type = ''Safety'',
           year = 2021, agency = ''OSHA'', penalty_amount = Finite 300\<rparr>"

text \<open>A row whose penalty cell is not a number.\<close>

definition cargo_row :: row where
  "cargo_row = [''Cargo LLC'', [], [], ''Wage'', ''2020'', ''DOL'', ''N/A'']"

definition page_of :: "row list \<Rightarrow> response" where
  "page_of rows = Body (Soup (Some (ViewsTable (Some rows))))"

text \<open>A site whose second page answers every request with an HTTP error.\<close>

definition site_page2_down :: "nat \<Rightarrow> server" where
  "site_page2_down page n =
     (if page = 2 then Raise HTTPError
      else if page = 1 then page_of [acme_row] else page_of [bolt_row])"


text \<open>A row whose required text cells are empty or blank.\<close>

definition blank_row :: row where
  "blank_row = ['' '', [], ''  '', [], ''2019'', [], []]"

text \<open>A row whose penalty cell carries a minus sign.\<close>

definition refund_row :: row where
  "refund_row = [''Delta Corp'', [], [], ''Tax'', ''2018'', ''IRS'', ''-$5.00'']"

definition refund :: violation where
  "refund = \<lparr>company = ''Delta Corp'', current_parent = None, current_parent_industry = None,
             primary_offense_type = ''Tax'', year = 2018, agency = ''IRS'',
             penalty_amount = Finite (- 5)\<rparr>"

text \<open>A row whose penalty cell reads \<^verbatim>\<open>nan\<close>.\<close>

definition nan_row :: row where
  "nan_row = [''Echo Ltd'', [], [], ''Fraud'', ''2017'', ''SEC'', ''nan'']"

definition echo :: violation where
  "echo = \<lparr>company = ''Echo Ltd'', current_parent = None, current_parent_industry = None,
           primary_offense_type = ''Fraud'', year = 2017, agency = ''SEC'',
           penalty_amount = NaN\<rparr>"

text \<open>
  A site whose second page lists three rows, the second of them with a penalty cell
  that is not a number, between two pages of one good row each; and what its first and
  third page contribute.
\<close>

definition site_bad_middle :: "nat \<Rightarrow> server" where
  "site_bad_middle page n =
     (if page = 1 then page_of [bolt_row]
      else if page = 2 then page_of [acme_row, cargo_row, bolt_row]
      else page_of [refund_row])"

definition outer_pages :: "nat \<Rightarrow> violation list" where
  "outer_pages k = (if k = 1 then [bolt] else [refund])"

text \<open>A site none of whose pages can be reached.\<close>

definition site_down :: "nat \<Rightarrow> server" where
  "site_down page n = Raise URLError"

text \<open>
  An environment in which the database answers every operation and reading the results
  back goes through; the flag says whether the log write goes through.
\<close>

definition env_of :: "(nat \<Rightarrow> server) \<Rightarrow> bool \<Rightarrow> env" where
  "env_of s log_ok =
     \<lparr>site = s, connect_ok = True, create_ok = True, store_ok = True, sink_ok = log_ok,
      now = 1700000000, verify_query_ok = True, verify_read_fault = None\<rparr>"

definition world0 :: world where
  "world0 = \<lparr>db = None, logs = Map.empty\<rparr>"

text \<open>
  A server that answers the first request with an HTTP error and every later one with
  a page, and a server on which every request times out.
\<close>

definition flaky_server :: server where
  "flaky_server n = (if n = 1 then Raise HTTPError else page_of [acme_row])"

definition timeout_server :: server where
  "timeout_server n = Raise SocketTimeout"

section \<open>Evaluation of the sample data\<close>

lemmas text_defs = strip_def isspace_def replace_char_def penalty_text_def or_none_def

lemmas number_defs = py_float_def py_int_def int_max_str_digits_def num_strip_def num_space_def
  parse_float_def split_sign_def lower_def parse_decimal_def is_digit_def parse_exponent_def
  scale10_def digits_val_def digit_val_def

lemma normalize_acme_row: "normalize_row acme_row = Inr acme"
  by (simp add: normalize_row_def normalize_penalty_def acme_row_def acme_def text_defs number_defs)

lemma normalize_bolt_row: "normalize_row bolt_row = Inr bolt"
  by (simp add: normalize_row_def normalize_penalty_def bolt_row_def bolt_def text_defs number_defs)


section \<open>Dedup Store: uniqueness and idempotence\<close>

lemma keys_insert_ignore:
  "unique_key ` set (insert_ignore rows r) = insert (unique_key r) (unique_key ` set rows)"
  by (auto simp: insert_ignore_def)

lemma keys_foldl_insert_ignore:
  "unique_key ` set (foldl insert_ignore rows rs) = unique_key ` set rows \<union> unique_key ` set rs"
  by (induction rs arbitrary: rows) (simp_all add: keys_insert_ignore)

lemma foldl_insert_ignore_present:
  "unique_key ` set rs \<subseteq> unique_key ` set rows \<Longrightarrow> foldl insert_ignore rows rs = rows"
  by (induction rs arbitrary: rows) (simp_all add: insert_ignore_def)

lemma foldl_insert_ignore_idem:
  "foldl insert_ignore (foldl insert_ignore rows rs) rs = foldl insert_ignore rows rs"
  by (rule foldl_insert_ignore_present) (simp add: keys_foldl_insert_ignore)

lemma distinct_insert_ignore:
  "distinct (map unique_key rows) \<Longrightarrow> distinct (map unique_key (insert_ignore rows r))"
  by (auto simp: insert_ignore_def)

lemma distinct_foldl_insert_ignore:
  "distinct (map unique_key rows) \<Longrightarrow> distinct (map unique_key (foldl insert_ignore rows rs))"
  by (induction rs arbitrary: rows) (auto simp: distinct_insert_ignore)

lemma reachable_distinct:
  "reachable d \<Longrightarrow> d = Some rows \<Longrightarrow> distinct (map unique_key rows)"
proof (induction arbitrary: rows rule: reachable.induct)
  case initial
  then show ?case by simp
next
  case (created d d')
  then show ?case by (auto simp: create_table_def split: option.splits)
next
  case (stored d records d')
  then show ?case
    by (auto simp: store_records_def distinct_foldl_insert_ignore
        split: option.splits if_splits)
qed

text \<open>
  Claim C1. In every database state reached from an empty database by creating the table
  and storing records, no two rows of \<^verbatim>\<open>violations\<close> agree on (company, year, agency,
  penalty_amount); and storing a record whose key is that of a stored row, whatever its
  other columns, returns without error and leaves the table as it was: no row is added
  and none is changed.
\<close>

theorem store_unique_key:
  assumes "reachable (Some rows)"
  shows "distinct (map unique_key rows)
    \<and> (\<forall>r. unique_key r \<in> set (map unique_key rows)
          \<longrightarrow> snd (store_records True (Some rows) [r]) = Inr (Some rows))"
  using reachable_distinct [OF assms] by (simp add: store_records_def insert_ignore_def)

theorem store_unique_key_witness:
  "reachable (Some [acme])
   \<and> unique_key acme_with_parent \<in> set (map unique_key [acme])
   \<and> current_parent acme_with_parent \<noteq> current_parent acme
   \<and> distinct (map unique_key [acme])
   \<and> snd (store_records True (Some [acme]) [acme_with_parent]) = Inr (Some [acme])"
proof -
  have "reachable (Some [])"
    by (rule reachable.created [OF reachable.initial]) (simp add: create_table_def)
  then have r: "reachable (Some [acme])"
    by (rule reachable.stored [where records = "[acme]"])
      (simp add: store_records_def insert_ignore_def)
  have k: "unique_key acme_with_parent \<in> set (map unique_key [acme])"
    by (simp add: unique_key_def acme_with_parent_def)
  have p: "current_parent acme_with_parent \<noteq> current_parent acme"
    by (simp add: acme_with_parent_def acme_def)
  from store_unique_key [OF r] k p r show ?thesis by blast
qed

text \<open>
  Claim C2. When \<^verbatim>\<open>store_records\<close> has stored a list of records, storing the same list
  again returns the same table: the second call inserts no row, so the row count
  changes on the first call only.
\<close>

theorem store_records_idempotent:
  assumes "snd (store_records True d records) = Inr d'"
  shows "snd (store_records True d' records) = Inr d'"
  using assms
  by (auto simp: store_records_def foldl_insert_ignore_idem split: option.splits if_splits)

theorem store_records_idempotent_witness:
  "snd (store_records True (Some []) [acme, acme_with_parent, bolt]) = Inr (Some [acme, bolt])
   \<and> snd (store_records True (Some [acme, bolt]) [acme, acme_with_parent, bolt])
       = Inr (Some [acme, bolt])"
proof -
  have first: "snd (store_records True (Some []) [acme, acme_with_parent, bolt])
      = Inr (Some [acme, bolt])"
    by (simp add: store_records_def insert_ignore_def unique_key_def acme_with_parent_def
        acme_def bolt_def)
  from store_records_idempotent [OF first] first show ?thesis by simp
qed

section \<open>Page Fetcher: the retry loop unrolled\<close>

lemma fetch_attempts_3:
  "fetch_attempts srv 3 =
     (case srv 3 of
        Body b \<Rightarrow> ([], Inr b)
      | Raise e \<Rightarrow> if \<not> retry_if_http_error e then ([], Inl e) else ([], Inl (RetryError e)))"
  by (subst fetch_attempts.simps)
    (simp add: stop_after_attempt_def split: response.splits del: fetch_attempts.simps)

lemma fetch_attempts_2:
  "fetch_attempts srv 2 =
     (case srv 2 of
        Body b \<Rightarrow> ([], Inr b)
      | Raise e \<Rightarrow>
          if \<not> retry_if_http_error e then ([], Inl e)
          else (LogRetrying 2 # Sleep 2 # fst (fetch_attempts srv 3), snd (fetch_attempts srv 3)))"
  by (subst fetch_attempts.simps)
    (simp add: stop_after_attempt_def wait_exponential_def split_beta split: response.splits
      del: fetch_attempts.simps)

lemma fetch_attempts_1:
  "fetch_attempts srv (Suc 0) =
     (case srv (Suc 0) of
        Body b \<Rightarrow> ([], Inr b)
      | Raise e \<Rightarrow>
          if \<not> retry_if_http_error e then ([], Inl e)
          else (LogRetrying (Suc 0) # Sleep 2 # fst (fetch_attempts srv 2),
                snd (fetch_attempts srv 2)))"
proof -
  have two: "Suc (Suc 0) = 2" by simp
  show ?thesis
    by (subst fetch_attempts.simps)
      (simp add: stop_after_attempt_def wait_exponential_def split_beta two
        split: response.splits del: fetch_attempts.simps)
qed

lemma fetch_page_unrolled:
  "fetch_page srv =
     (case srv 1 of
        Body b \<Rightarrow> ([], Inr b)
      | Raise e \<Rightarrow>
          if \<not> retry_if_http_error e then ([], Inl e)
          else (case srv 2 of
                  Body b \<Rightarrow> ([LogRetrying 1, Sleep 2], Inr b)
                | Raise e \<Rightarrow>
                    if \<not> retry_if_http_error e then ([LogRetrying 1, Sleep 2], Inl e)
                    else (case srv 3 of
                            Body b \<Rightarrow> ([LogRetrying 1, Sleep 2, LogRetrying 2, Sleep 2], Inr b)
                          | Raise e \<Rightarrow>
                              if \<not> retry_if_http_error e
                              then ([LogRetrying 1, Sleep 2, LogRetrying 2, Sleep 2], Inl e)
                              else ([LogRetrying 1, Sleep 2, LogRetrying 2, Sleep 2],
                                    Inl (RetryError e)))))"
  by (simp add: fetch_page_def fetch_attempts_1 fetch_attempts_2 fetch_attempts_3
      split: response.splits del: fetch_attempts.simps)

lemma fetch_page_all_fail:
  assumes "\<forall>n. \<exists>e. srv n = Raise e"
  shows "\<exists>e. snd (fetch_page srv) = Inl e"
proof -
  from assms obtain e1 e2 e3 where "srv 1 = Raise e1" "srv 2 = Raise e2" "srv 3 = Raise e3"
    by blast
  then show ?thesis by (simp add: fetch_page_unrolled)
qed

section \<open>Pipeline Orchestrator: what a page contributes\<close>

lemma process_rows_all_ok:
  "map normalize_row rows = map Inr vs \<Longrightarrow> process_rows rows acc = (acc @ vs, None)"
proof (induction rows arbitrary: acc vs)
  case Nil
  then show ?case by simp
next
  case (Cons r rows)
  then obtain v vs' where vs: "vs = v # vs'" "normalize_row r = Inr v"
    "map normalize_row rows = map Inr vs'"
    by (cases vs) auto
  with Cons.IH [of vs' "acc @ [v]"] show ?case by simp
qed

lemma process_rows_first_error:
  "map normalize_row pre = map Inr vs \<Longrightarrow> normalize_row r = Inl e
   \<Longrightarrow> process_rows (pre @ r # post) acc = (acc @ vs, Some e)"
proof (induction pre arbitrary: acc vs)
  case Nil
  then show ?case by simp
next
  case (Cons p pre)
  then obtain v vs' where vs: "vs = v # vs'" "normalize_row p = Inr v"
    "map normalize_row pre = map Inr vs'"
    by (cases vs) auto
  with Cons.IH [of vs' "acc @ [v]"] Cons.prems(2) show ?case by simp
qed

lemma scrape_page_fetch_error:
  "snd (fetch_page (web page)) = Inl e
   \<Longrightarrow> scrape_page web page records =
       (Sleep 10 # fst (fetch_page (web page)) @ [LogPageError page e], records)"
  by (cases "fetch_page (web page)") (simp add: scrape_page_def)

lemma scrape_page_no_table:
  "snd (fetch_page (web page)) = Inr (Soup None)
   \<Longrightarrow> scrape_page web page records =
       (Sleep 10 # fst (fetch_page (web page)) @ [LogNoTable page], records)"
  by (cases "fetch_page (web page)") (simp add: scrape_page_def)


lemma scrape_page_all_ok:
  "snd (fetch_page (web page)) = Inr (Soup (Some (ViewsTable (Some rows))))
   \<Longrightarrow> map normalize_row rows = map Inr vs
   \<Longrightarrow> scrape_page web page records =
       (Sleep 10 # fst (fetch_page (web page)) @ [LogScraped (length rows) page], records @ vs)"
  by (cases "fetch_page (web page)") (simp add: scrape_page_def process_rows_all_ok)

lemma scrape_page_row_error:
  "snd (fetch_page (web page)) = Inr (Soup (Some (ViewsTable (Some (pre @ r # post)))))
   \<Longrightarrow> map normalize_row pre = map Inr vs \<Longrightarrow> normalize_row r = Inl e
   \<Longrightarrow> scrape_page web page records =
       (Sleep 10 # fst (fetch_page (web page)) @ [LogPageError page e], records @ vs)"
  by (cases "fetch_page (web page)") (simp add: scrape_page_def process_rows_first_error)

lemma scrape_violation_tracker_pages:
  "scrape_violation_tracker web =
     (fst (scrape_page web 1 [])
        @ fst (scrape_page web 2 (snd (scrape_page web 1 [])))
        @ fst (scrape_page web 3 (snd (scrape_page web 2 (snd (scrape_page web 1 []))))),
      snd (scrape_page web 3 (snd (scrape_page web 2 (snd (scrape_page web 1 []))))))"
  by (simp add: scrape_violation_tracker_def Let_def split: prod.splits)

text \<open>
  Claim C3. When pages 1 and 3 are fetched and all their rows normalize, while every
  request for page 2 fails, \<^verbatim>\<open>scrape_violation_tracker\<close> returns the records of page 1
  followed by those of page 3, each in row order. It returns a list in every case: the
  failure of page 2 is logged, not raised.
\<close>

theorem page_failure_isolation:
  assumes "snd (fetch_page (web 1)) = Inr (Soup (Some (ViewsTable (Some rows1))))"
    and "map normalize_row rows1 = map Inr recs1"
    and "\<forall>n. \<exists>e. web 2 n = Raise e"
    and "snd (fetch_page (web 3)) = Inr (Soup (Some (ViewsTable (Some rows3))))"
    and "map normalize_row rows3 = map Inr recs3"
  shows "snd (scrape_violation_tracker web) = recs1 @ recs3
    \<and> (\<exists>e. LogPageError 2 e \<in> set (fst (scrape_violation_tracker web)))"
proof -
  from assms(3) obtain e where e: "snd (fetch_page (web 2)) = Inl e"
    using fetch_page_all_fail by blast
  have p1: "scrape_page web 1 [] =
      (Sleep 10 # fst (fetch_page (web 1)) @ [LogScraped (length rows1) 1], recs1)"
    using scrape_page_all_ok [where web = web and page = 1 and records = "[]", OF assms(1,2)]
    by simp
  have p2: "scrape_page web 2 recs1 =
      (Sleep 10 # fst (fetch_page (web 2)) @ [LogPageError 2 e], recs1)"
    by (rule scrape_page_fetch_error [where web = web and page = 2, OF e])
  have p3: "scrape_page web 3 recs1 =
      (Sleep 10 # fst (fetch_page (web 3)) @ [LogScraped (length rows3) 3], recs1 @ recs3)"
    by (rule scrape_page_all_ok [where web = web and page = 3, OF assms(4,5)])
  have "LogPageError 2 e \<in> set (fst (scrape_violation_tracker web))"
    unfolding scrape_violation_tracker_pages p1 snd_conv fst_conv p2 p3 by simp
  moreover have "snd (scrape_violation_tracker web) = recs1 @ recs3"
    unfolding scrape_violation_tracker_pages p1 snd_conv fst_conv p2 p3 by simp
  ultimately show ?thesis by blast
qed

lemma fetch_page_site_page2_down:
  "fetch_page (site_page2_down 1) = ([], Inr (Soup (Some (ViewsTable (Some [acme_row])))))"
  "fetch_page (site_page2_down 3) = ([], Inr (Soup (Some (ViewsTable (Some [bolt_row])))))"
  "fetch_page (site_page2_down 2) =
     ([LogRetrying 1, Sleep 2, LogRetrying 2, Sleep 2], Inl (RetryError HTTPError))"
  by (simp_all add: fetch_page_unrolled site_page2_down_def page_of_def)

theorem page_failure_isolation_witness:
  "snd (fetch_page (site_page2_down 1)) = Inr (Soup (Some (ViewsTable (Some [acme_row]))))
   \<and> map normalize_row [acme_row] = map Inr [acme]
   \<and> (\<forall>n. \<exists>e. site_page2_down 2 n = Raise e)
   \<and> snd (fetch_page (site_page2_down 3)) = Inr (Soup (Some (ViewsTable (Some [bolt_row]))))
   \<and> map normalize_row [bolt_row] = map Inr [bolt]
   \<and> snd (scrape_violation_tracker site_page2_down) = [acme, bolt]"
proof -
  have h1: "snd (fetch_page (site_page2_down 1)) = Inr (Soup (Some (ViewsTable (Some [acme_row]))))"
    by (simp only: fetch_page_site_page2_down snd_conv)
  have h2: "map normalize_row [acme_row] = map Inr [acme]"
    by (simp add: normalize_acme_row)
  have h3: "\<forall>n. \<exists>e. site_page2_down 2 n = Raise e"
    by (simp add: site_page2_down_def)
  have h4: "snd (fetch_page (site_page2_down 3)) = Inr (Soup (Some (ViewsTable (Some [bolt_row]))))"
    by (simp only: fetch_page_site_page2_down snd_conv)
  have h5: "map normalize_row [bolt_row] = map Inr [bolt]"
    by (simp add: normalize_bolt_row)
  from page_failure_isolation [OF h1 h2 h3 h4 h5] h1 h2 h3 h4 h5 show ?thesis by simp
qed







section \<open>Record Normalizer: trimming, penalty and text fields\<close>

lemma replace_char_empty: "replace_char c [] s = filter (\<lambda>x. x \<noteq> c) s"
  by (induction s) (simp_all add: replace_char_def)

lemma penalty_text_filter:
  "penalty_text t = filter (\<lambda>c. c \<noteq> CHR ''$'' \<and> c \<noteq> CHR '','') (strip t)"
  by (simp add: penalty_text_def replace_char_empty conj_commute)

lemma strip_decomposition:
  "\<exists>pre post. s = pre @ strip s @ post \<and> list_all isspace pre \<and> list_all isspace post"
proof -
  define u where "u = dropWhile isspace s"
  have s: "s = takeWhile isspace s @ u"
    by (simp add: u_def)
  have "rev (dropWhile isspace (rev u)) @ rev (takeWhile isspace (rev u))
      = rev (takeWhile isspace (rev u) @ dropWhile isspace (rev u))"
    by (simp only: rev_append)
  also have "\<dots> = u"
    by (simp only: takeWhile_dropWhile_id rev_rev_ident)
  finally have u: "u = strip s @ rev (takeWhile isspace (rev u))"
    by (simp only: strip_def u_def)
  have "list_all isspace (takeWhile isspace s)"
    by (simp add: list_all_iff) (meson set_takeWhileD)
  moreover have "list_all isspace (rev (takeWhile isspace (rev u)))"
    by (simp add: list_all_iff) (meson set_takeWhileD)
  ultimately show ?thesis using s u by metis
qed

lemma strip_ends:
  assumes "strip s \<noteq> []"
  shows "\<not> isspace (hd (strip s)) \<and> \<not> isspace (last (strip s))"
proof -
  define u where "u = dropWhile isspace s"
  define w where "w = dropWhile isspace (rev u)"
  have st: "strip s = rev w" by (simp add: strip_def u_def w_def)
  with assms have w: "w \<noteq> []" by simp
  then have u: "u \<noteq> []" by (auto simp: w_def)
  have "\<not> isspace (hd w)" using w unfolding w_def by (rule hd_dropWhile)
  then have l: "\<not> isspace (last (strip s))" using w by (simp add: st last_rev)
  have "rev u = takeWhile isspace (rev u) @ w" by (simp add: w_def)
  then have "last (rev u) = last w" using w by (metis last_appendR)
  then have "hd (strip s) = hd u" using w u by (simp add: st hd_rev last_rev)
  moreover have "\<not> isspace (hd u)" using u unfolding u_def by (rule hd_dropWhile)
  ultimately show ?thesis using l by simp
qed

lemma strip_blank:
  assumes "list_all isspace s"
  shows "strip s = []"
proof -
  from assms have d: "dropWhile isspace s = []" by (simp add: list_all_iff)
  show ?thesis unfolding strip_def d by simp
qed

lemma scale10_nonneg: "0 \<le> scale10 m e"
  by (simp add: scale10_def)

lemma parse_decimal_nonneg: "parse_decimal r = Some q \<Longrightarrow> 0 \<le> q"
  by (auto simp: parse_decimal_def Let_def scale10_nonneg split: if_splits option.splits)

lemma set_num_strip: "set (num_strip s) \<subseteq> set s"
proof -
  have "set (dropWhile num_space (rev (dropWhile num_space s))) \<subseteq> set (rev (dropWhile num_space s))"
    by (rule set_dropWhileD [THEN subsetI])
  also have "\<dots> \<subseteq> set s" by (auto dest: set_dropWhileD)
  finally show ?thesis by (simp add: num_strip_def)
qed

lemma split_sign_no_minus: "CHR ''-'' \<notin> set s \<Longrightarrow> fst (split_sign s) = False"
  by (cases s) (auto simp: split_sign_def)

lemma parse_float_no_minus:
  assumes "parse_float s = Some v" "CHR ''-'' \<notin> set s" "v \<noteq> NaN"
  shows "float_ge0 v"
proof -
  obtain neg r where sp: "split_sign s = (neg, r)" by (cases "split_sign s")
  with split_sign_no_minus [OF assms(2)] have neg: "neg = False" by simp
  from assms(1,3) sp neg show ?thesis
    by (auto simp: parse_float_def Let_def parse_decimal_nonneg split: if_splits option.splits)
qed

lemma py_float_no_minus:
  assumes "py_float p = Inr v" "CHR ''-'' \<notin> set p" "v \<noteq> NaN"
  shows "float_ge0 v"
proof -
  let ?s = "num_strip (filter (\<lambda>c. c \<noteq> CHR ''_'') p)"
  from assms(1) have pf: "parse_float ?s = Some v"
    by (auto simp: py_float_def split: if_splits option.splits)
  have "set ?s \<subseteq> set p" using set_num_strip [of "filter (\<lambda>c. c \<noteq> CHR ''_'') p"] by auto
  with assms(2) have "CHR ''-'' \<notin> set ?s" by blast
  from parse_float_no_minus [OF pf this assms(3)] show ?thesis .
qed

lemma py_float_error: "py_float p = Inl e \<Longrightarrow> e = ValueError"
  by (auto simp: py_float_def split: if_splits option.splits)


lemma not_digit_chars:
  "\<not> is_digit (CHR ''_'')" "\<not> is_digit (CHR ''.'')" "\<not> is_digit (CHR ''e'')"
  "\<not> is_digit (CHR ''E'')" "\<not> is_digit (CHR ''+'')" "\<not> is_digit (CHR ''-'')"
  "\<not> is_digit (CHR 0x00)"
  by (simp_all add: is_digit_def)

lemma all_splits_Cons:
  "(\<forall>pre post. c # cs = pre @ u # post \<longrightarrow> P pre post) \<longleftrightarrow>
     (c = u \<longrightarrow> P [] cs) \<and> (\<forall>pre post. cs = pre @ u # post \<longrightarrow> P (c # pre) post)"
proof
  assume l: "\<forall>pre post. c # cs = pre @ u # post \<longrightarrow> P pre post"
  show "(c = u \<longrightarrow> P [] cs) \<and> (\<forall>pre post. cs = pre @ u # post \<longrightarrow> P (c # pre) post)"
  proof (intro conjI impI allI)
    assume "c = u"
    then have "c # cs = [] @ u # cs" by simp
    with l show "P [] cs" by blast
  next
    fix pre post
    assume "cs = pre @ u # post"
    then have "c # cs = (c # pre) @ u # post" by simp
    with l show "P (c # pre) post" by blast
  qed
next
  assume r: "(c = u \<longrightarrow> P [] cs) \<and> (\<forall>pre post. cs = pre @ u # post \<longrightarrow> P (c # pre) post)"
  show "\<forall>pre post. c # cs = pre @ u # post \<longrightarrow> P pre post"
  proof (intro allI impI)
    fix pre post
    assume e: "c # cs = pre @ u # post"
    show "P pre post"
    proof (cases pre)
      case Nil
      with e r show ?thesis by simp
    next
      case (Cons p pre')
      with e r show ?thesis by simp
    qed
  qed
qed

lemma underscores_ok_iff:
  "underscores_ok prev s \<longleftrightarrow>
     (\<forall>pre post. s = pre @ CHR ''_'' # post
        \<longrightarrow> is_digit (last (prev # pre)) \<and> post \<noteq> [] \<and> is_digit (hd post))
     \<and> (prev = CHR ''_'' \<longrightarrow> s \<noteq> [] \<and> is_digit (hd s))"
proof (induction s arbitrary: prev)
  case Nil
  then show ?case by simp
next
  case (Cons c cs)
  have d: "is_digit prev \<Longrightarrow> prev \<noteq> CHR ''_''" for prev
    by (auto simp: not_digit_chars)
  show ?case
    unfolding all_splits_Cons underscores_ok.simps Cons.IH [of c]
    using d [of prev] by (cases "c = CHR ''_''") (auto simp: not_digit_chars)
qed

lemma underscores_ok_between_digits:
  "underscores_ok (CHR 0x00) s \<longleftrightarrow> underscores_between_digits s"
proof -
  have "is_digit (last (CHR 0x00 # pre)) \<longleftrightarrow> pre \<noteq> [] \<and> is_digit (last pre)" for pre
    by (cases pre) (simp_all add: not_digit_chars)
  then show ?thesis
    unfolding underscores_ok_iff underscores_between_digits_def by simp
qed

lemma num_strip_decomposition:
  "\<exists>ws1 ws2. u = ws1 @ num_strip u @ ws2 \<and> list_all num_space ws1 \<and> list_all num_space ws2"
proof -
  define v where "v = dropWhile num_space u"
  have u: "u = takeWhile num_space u @ v"
    by (simp add: v_def)
  have "rev (dropWhile num_space (rev v)) @ rev (takeWhile num_space (rev v))
      = rev (takeWhile num_space (rev v) @ dropWhile num_space (rev v))"
    by (simp only: rev_append)
  also have "\<dots> = v"
    by (simp only: takeWhile_dropWhile_id rev_rev_ident)
  finally have v: "v = num_strip u @ rev (takeWhile num_space (rev v))"
    by (simp only: num_strip_def v_def)
  have "list_all num_space (takeWhile num_space u)"
    by (simp add: list_all_iff) (meson set_takeWhileD)
  moreover have "list_all num_space (rev (takeWhile num_space (rev v)))"
    by (simp add: list_all_iff) (meson set_takeWhileD)
  ultimately show ?thesis using u v by metis
qed

lemma num_strip_unique:
  assumes "list_all num_space ws1" and "list_all num_space ws2"
    and "m \<noteq> []" and "\<not> num_space (hd m)" and "\<not> num_space (last m)"
  shows "num_strip (ws1 @ m @ ws2) = m"
proof -
  from assms(3,4) have hm: "dropWhile num_space (m @ ws2) = m @ ws2"
    by (cases m) simp_all
  from assms(1) have a: "dropWhile num_space (ws1 @ m @ ws2) = m @ ws2"
    by (simp add: dropWhile_append2 list_all_iff hm)
  from assms(3,5) have "rev m \<noteq> []" "\<not> num_space (hd (rev m))"
    by (simp_all add: hd_rev)
  then have hr: "dropWhile num_space (rev m) = rev m"
    by (cases "rev m") simp_all
  have "dropWhile num_space (rev ws2 @ rev m) = dropWhile num_space (rev m)"
    using assms(2) by (intro dropWhile_append2) (simp add: list_all_iff)
  then have b: "dropWhile num_space (rev (m @ ws2)) = rev m"
    by (simp only: rev_append hr)
  show ?thesis
    unfolding num_strip_def a b by simp
qed

lemma split_sign_decomposition: "\<exists>sg. sign_prefix sg \<and> m = sg @ snd (split_sign m)"
  by (cases m) (auto simp: split_sign_def sign_prefix_def)

lemma split_sign_compose:
  "sign_prefix sg \<Longrightarrow> b \<noteq> [] \<Longrightarrow> hd b \<noteq> CHR ''+'' \<Longrightarrow> hd b \<noteq> CHR ''-''
   \<Longrightarrow> snd (split_sign (sg @ b)) = b"
  by (cases b) (auto simp: split_sign_def sign_prefix_def)

lemma digits_no_sign:
  "ds \<noteq> [] \<Longrightarrow> list_all is_digit ds \<Longrightarrow> hd ds \<noteq> CHR ''+'' \<and> hd ds \<noteq> CHR ''-''"
  by (cases ds) (auto simp: not_digit_chars)

lemma parse_exponent_iff: "parse_exponent ex \<noteq> None \<longleftrightarrow> exponent_part ex"
proof
  assume p: "parse_exponent ex \<noteq> None"
  show "exponent_part ex"
  proof (cases ex)
    case Nil
    then show ?thesis by (simp add: exponent_part_def)
  next
    case (Cons c r)
    from split_sign_decomposition [of r] obtain sg where sg: "sign_prefix sg" "r = sg @ snd (split_sign r)"
      by blast
    from p Cons have "(c = CHR ''e'' \<or> c = CHR ''E'') \<and> snd (split_sign r) \<noteq> []
        \<and> list_all is_digit (snd (split_sign r))"
      by (auto simp: parse_exponent_def split_beta split: if_splits)
    with sg Cons show ?thesis
      unfolding exponent_part_def by (metis)
  qed
next
  assume "exponent_part ex"
  then consider "ex = []"
    | c sg ds where "ex = c # sg @ ds" "c = CHR ''e'' \<or> c = CHR ''E''" "sign_prefix sg"
        "ds \<noteq> []" "list_all is_digit ds"
    unfolding exponent_part_def by blast
  then show "parse_exponent ex \<noteq> None"
  proof cases
    case 1
    then show ?thesis by (simp add: parse_exponent_def)
  next
    case 2
    from digits_no_sign [OF 2(4,5)] have "snd (split_sign (sg @ ds)) = ds"
      using split_sign_compose [OF 2(3,4)] by simp
    with 2 show ?thesis
      by (auto simp: parse_exponent_def split_beta)
  qed
qed

lemma span_digits:
  "list_all is_digit ip \<Longrightarrow> rest = [] \<or> \<not> is_digit (hd rest)
   \<Longrightarrow> takeWhile is_digit (ip @ rest) = ip \<and> dropWhile is_digit (ip @ rest) = rest"
  by (cases rest) (auto simp: takeWhile_append2 dropWhile_append2 list_all_iff)

lemma exponent_part_head:
  "exponent_part ex \<Longrightarrow> ex = [] \<or> (\<not> is_digit (hd ex) \<and> hd ex \<noteq> CHR ''.'')"
  by (auto simp: exponent_part_def not_digit_chars)

lemma parse_decimal_iff: "parse_decimal b \<noteq> None \<longleftrightarrow> decimal_numeral b"
proof
  assume p: "parse_decimal b \<noteq> None"
  define ip where "ip = takeWhile is_digit b"
  define r1 where "r1 = dropWhile is_digit b"
  have b: "b = ip @ r1" by (simp add: ip_def r1_def)
  have dip: "list_all is_digit ip"
    by (simp add: ip_def list_all_iff) (meson set_takeWhileD)
  show "decimal_numeral b"
  proof (cases "r1 \<noteq> [] \<and> hd r1 = CHR ''.''")
    case True
    define fp where "fp = takeWhile is_digit (tl r1)"
    define r2 where "r2 = dropWhile is_digit (tl r1)"
    from True have r1: "r1 = (CHR ''.'' # fp) @ r2"
      by (cases r1) (simp_all add: fp_def r2_def)
    have dfp: "list_all is_digit fp"
      by (simp add: fp_def list_all_iff) (meson set_takeWhileD)
    from p True have ne: "\<not> (ip = [] \<and> fp = [])" and pe: "parse_exponent r2 \<noteq> None"
      by (auto simp: parse_decimal_def Let_def ip_def [symmetric] r1_def [symmetric]
          fp_def [symmetric] r2_def [symmetric] split: if_splits option.splits)
    from pe have "exponent_part r2" by (simp only: parse_exponent_iff)
    moreover from ne dip dfp have "\<exists>d \<in> set (ip @ CHR ''.'' # fp). is_digit d"
      by (auto simp: list_all_iff neq_Nil_conv)
    ultimately have "\<exists>d \<in> set (ip @ CHR ''.'' # fp). is_digit d" "exponent_part r2"
      by blast+
    with b r1 dip dfp show ?thesis
      unfolding decimal_numeral_def by (metis append.assoc)
  next
    case False
    from p False have ne: "ip \<noteq> []" and pe: "parse_exponent r1 \<noteq> None"
      by (auto simp: parse_decimal_def Let_def ip_def [symmetric] r1_def [symmetric]
          split: if_splits option.splits)
    from pe have "exponent_part r1" by (simp only: parse_exponent_iff)
    moreover from ne dip have "\<exists>d \<in> set (ip @ []). is_digit d"
      by (auto simp: list_all_iff neq_Nil_conv)
    ultimately have "\<exists>d \<in> set (ip @ []). is_digit d" "exponent_part r1"
      by blast+
    with b dip show ?thesis
      unfolding decimal_numeral_def by (metis append_Nil)
  qed
next
  assume "decimal_numeral b"
  then obtain ip fr ex where d: "b = ip @ fr @ ex" "list_all is_digit ip"
      "fr = [] \<or> (\<exists>fp. fr = CHR ''.'' # fp \<and> list_all is_digit fp)"
      "\<exists>d \<in> set (ip @ fr). is_digit d" "exponent_part ex"
    unfolding decimal_numeral_def by blast
  from d(5) have pe: "parse_exponent ex \<noteq> None" by (simp only: parse_exponent_iff)
  from d(3) show "parse_decimal b \<noteq> None"
  proof
    assume fr: "fr = []"
    with exponent_part_head [OF d(5)] have "ex = [] \<or> \<not> is_digit (hd ex)" by blast
    from span_digits [OF d(2) this] have sp: "takeWhile is_digit (ip @ ex) = ip"
      "dropWhile is_digit (ip @ ex) = ex" by simp_all
    from d(4) fr have "ip \<noteq> []" by auto
    with exponent_part_head [OF d(5)] pe show ?thesis
      unfolding parse_decimal_def d(1) fr append_Nil sp Let_def
      by (auto split: option.splits)
  next
    assume "\<exists>fp. fr = CHR ''.'' # fp \<and> list_all is_digit fp"
    then obtain fp where fr: "fr = CHR ''.'' # fp" and dfp: "list_all is_digit fp" by blast
    from span_digits [OF d(2), of "CHR ''.'' # fp @ ex"]
    have sp1: "takeWhile is_digit (ip @ CHR ''.'' # fp @ ex) = ip"
      "dropWhile is_digit (ip @ CHR ''.'' # fp @ ex) = CHR ''.'' # fp @ ex"
      by (simp_all add: not_digit_chars)
    from exponent_part_head [OF d(5)] have "ex = [] \<or> \<not> is_digit (hd ex)" by blast
    from span_digits [OF dfp this] have sp2: "takeWhile is_digit (fp @ ex) = fp"
      "dropWhile is_digit (fp @ ex) = ex" by simp_all
    from d(4) fr have "\<not> (ip = [] \<and> fp = [])" by (auto simp: not_digit_chars)
    with pe show ?thesis
      unfolding parse_decimal_def d(1) fr append_Cons append_Nil sp1 Let_def
      by (auto simp: sp2 split: option.splits)
  qed
qed

lemma lower_plain:
  "num_space c \<or> c = CHR ''+'' \<or> c = CHR ''-'' \<Longrightarrow> lower c = c"
  by (auto simp: num_space_def lower_def)

lemma special_word_chars:
  assumes "special_word b"
  shows "b \<noteq> []" and "\<forall>c \<in> set b. \<not> num_space c"
    and "hd b \<noteq> CHR ''+''" and "hd b \<noteq> CHR ''-''"
proof -
  from assms show ne: "b \<noteq> []" by (auto simp: special_word_def)
  have letters: "lower c \<in> set ''infinityan''" if "c \<in> set b" for c
  proof -
    from that have "lower c \<in> set (map lower b)" by simp
    with assms show ?thesis unfolding special_word_def by auto
  qed
  have plain: "\<not> (num_space c \<or> c = CHR ''+'' \<or> c = CHR ''-'')" if "c \<in> set b" for c
  proof
    assume p: "num_space c \<or> c = CHR ''+'' \<or> c = CHR ''-''"
    with letters [OF that] lower_plain [OF p] have "c \<in> set ''infinityan''" by simp
    with p show False by (auto simp: num_space_def)
  qed
  then show "\<forall>c \<in> set b. \<not> num_space c" by blast
  from ne have "hd b \<in> set b" by simp
  with plain show "hd b \<noteq> CHR ''+''" and "hd b \<noteq> CHR ''-''" by blast+
qed

lemma digit_not_space: "is_digit c \<Longrightarrow> \<not> num_space c"
  by (auto simp: is_digit_def num_space_def)

lemma sign_prefix_chars: "sign_prefix sg \<Longrightarrow> \<forall>c \<in> set sg. \<not> num_space c"
  by (auto simp: sign_prefix_def num_space_def)

lemma exponent_part_chars: "exponent_part ex \<Longrightarrow> \<forall>c \<in> set ex. \<not> num_space c"
proof -
  assume "exponent_part ex"
  then consider "ex = []"
    | c sg ds where "ex = c # sg @ ds" "c = CHR ''e'' \<or> c = CHR ''E''" "sign_prefix sg"
        "list_all is_digit ds"
    unfolding exponent_part_def by blast
  then show ?thesis
  proof cases
    case 1
    then show ?thesis by simp
  next
    case 2
    from 2(2) have "\<not> num_space c" by (auto simp: num_space_def)
    with 2(1,4) sign_prefix_chars [OF 2(3)] show ?thesis
      by (auto simp: list_all_iff digit_not_space)
  qed
qed

lemma decimal_numeral_chars:
  assumes "decimal_numeral b"
  shows "b \<noteq> []" and "\<forall>c \<in> set b. \<not> num_space c"
    and "hd b \<noteq> CHR ''+''" and "hd b \<noteq> CHR ''-''"
proof -
  from assms obtain ip fr ex where d: "b = ip @ fr @ ex" "list_all is_digit ip"
      "fr = [] \<or> (\<exists>fp. fr = CHR ''.'' # fp \<and> list_all is_digit fp)"
      "\<exists>d \<in> set (ip @ fr). is_digit d" "exponent_part ex"
    unfolding decimal_numeral_def by blast
  from d(1,4) show "b \<noteq> []" by auto
  have "\<not> num_space (CHR ''.'')" by (simp add: num_space_def)
  with d(3) have fr: "\<forall>c \<in> set fr. \<not> num_space c"
    by (auto simp: list_all_iff digit_not_space)
  with d(1,2) exponent_part_chars [OF d(5)] show "\<forall>c \<in> set b. \<not> num_space c"
    by (auto simp: list_all_iff digit_not_space)
  have "is_digit (hd b) \<or> hd b = CHR ''.''"
  proof (cases ip)
    case Nil
    with d(4) have "fr \<noteq> []" by auto
    with d(3) Nil d(1) show ?thesis by auto
  next
    case (Cons a ip')
    with d(1,2) show ?thesis by simp
  qed
  then show "hd b \<noteq> CHR ''+''" and "hd b \<noteq> CHR ''-''"
    by (auto simp: not_digit_chars)
qed

lemma parse_float_accepts:
  "parse_float m \<noteq> None \<longleftrightarrow>
     special_word (snd (split_sign m)) \<or> parse_decimal (snd (split_sign m)) \<noteq> None"
  by (auto simp: parse_float_def special_word_def split_beta Let_def split: option.splits)

lemma parse_float_iff:
  "parse_float m \<noteq> None \<longleftrightarrow>
     (\<exists>sg b. m = sg @ b \<and> sign_prefix sg \<and> (special_word b \<or> decimal_numeral b))"
proof
  assume "parse_float m \<noteq> None"
  then have "special_word (snd (split_sign m)) \<or> decimal_numeral (snd (split_sign m))"
    by (simp only: parse_float_accepts parse_decimal_iff)
  with split_sign_decomposition [of m]
  show "\<exists>sg b. m = sg @ b \<and> sign_prefix sg \<and> (special_word b \<or> decimal_numeral b)"
    by blast
next
  assume "\<exists>sg b. m = sg @ b \<and> sign_prefix sg \<and> (special_word b \<or> decimal_numeral b)"
  then obtain sg b where m: "m = sg @ b" "sign_prefix sg" "special_word b \<or> decimal_numeral b"
    by blast
  from m(3) have "b \<noteq> []" "hd b \<noteq> CHR ''+''" "hd b \<noteq> CHR ''-''"
    using special_word_chars(1,3,4) decimal_numeral_chars(1,3,4) by blast+
  from split_sign_compose [OF m(2) this] have "snd (split_sign m) = b"
    by (simp only: m(1))
  with m(3) show "parse_float m \<noteq> None"
    by (simp only: parse_float_accepts parse_decimal_iff)
qed

lemma py_float_accepts:
  "(\<exists>x. py_float s = Inr x) \<longleftrightarrow>
     underscores_ok (CHR 0x00) s
     \<and> parse_float (num_strip (filter (\<lambda>c. c \<noteq> CHR ''_'') s)) \<noteq> None"
  by (auto simp: py_float_def split: option.splits)

lemma py_float_accepts_iff: "(\<exists>x. py_float s = Inr x) \<longleftrightarrow> float_literal s"
proof -
  let ?u = "filter (\<lambda>c. c \<noteq> CHR ''_'') s"
  have "parse_float (num_strip ?u) \<noteq> None \<longleftrightarrow>
      (\<exists>ws1 sg b ws2. ?u = ws1 @ sg @ b @ ws2
          \<and> list_all num_space ws1 \<and> list_all num_space ws2 \<and> sign_prefix sg
          \<and> (special_word b \<or> decimal_numeral b))"
  proof
    assume "parse_float (num_strip ?u) \<noteq> None"
    then obtain sg b where m: "num_strip ?u = sg @ b" "sign_prefix sg"
        "special_word b \<or> decimal_numeral b"
      unfolding parse_float_iff by blast
    from num_strip_decomposition [of ?u] obtain ws1 ws2 where
      w: "?u = ws1 @ num_strip ?u @ ws2" "list_all num_space ws1" "list_all num_space ws2"
      by blast
    from w(1) have "?u = ws1 @ sg @ b @ ws2" by (simp only: m(1) append_assoc)
    with w(2,3) m(2,3)
    show "\<exists>ws1 sg b ws2. ?u = ws1 @ sg @ b @ ws2
          \<and> list_all num_space ws1 \<and> list_all num_space ws2 \<and> sign_prefix sg
          \<and> (special_word b \<or> decimal_numeral b)"
      by blast
  next
    assume "\<exists>ws1 sg b ws2. ?u = ws1 @ sg @ b @ ws2
          \<and> list_all num_space ws1 \<and> list_all num_space ws2 \<and> sign_prefix sg
          \<and> (special_word b \<or> decimal_numeral b)"
    then obtain ws1 sg b ws2 where d: "?u = ws1 @ sg @ b @ ws2" "list_all num_space ws1"
        "list_all num_space ws2" "sign_prefix sg" "special_word b \<or> decimal_numeral b"
      by blast
    from d(5) have b: "b \<noteq> []" "\<forall>c \<in> set b. \<not> num_space c"
      using special_word_chars(1,2) decimal_numeral_chars(1,2) by blast+
    with sign_prefix_chars [OF d(4)] have all: "\<forall>c \<in> set (sg @ b). \<not> num_space c" by auto
    from b(1) have ne: "sg @ b \<noteq> []" by simp
    then have "hd (sg @ b) \<in> set (sg @ b)" "last (sg @ b) \<in> set (sg @ b)"
      by (rule hd_in_set, rule last_in_set)
    with all have "\<not> num_space (hd (sg @ b))" "\<not> num_space (last (sg @ b))" by blast+
    from num_strip_unique [OF d(2,3) ne this] have "num_strip ?u = sg @ b"
      by (simp only: d(1) append_assoc)
    with d(4,5) show "parse_float (num_strip ?u) \<noteq> None"
      unfolding parse_float_iff by blast
  qed
  then show ?thesis
    unfolding py_float_accepts underscores_ok_between_digits float_literal_def by simp
qed

lemma py_float_rejects_iff: "py_float s = Inl ValueError \<longleftrightarrow> \<not> float_literal s"
proof -
  have "py_float s = Inl ValueError \<longleftrightarrow> \<not> (\<exists>x. py_float s = Inr x)"
    by (auto simp: py_float_def split: option.splits)
  then show ?thesis by (simp only: py_float_accepts_iff)
qed

lemma normalize_refund_row: "normalize_row refund_row = Inr refund"
  by (simp add: normalize_row_def normalize_penalty_def refund_row_def refund_def text_defs
      number_defs)

lemma normalize_row_penalty_error:
  "7 \<le> length r \<Longrightarrow> normalize_penalty (r ! 6) = Inl e \<Longrightarrow> normalize_row r = Inl e"
  by (simp add: normalize_row_def)

lemma normalize_penalty_rejects:
  "penalty_text t \<noteq> [] \<Longrightarrow> \<not> float_literal (penalty_text t)
   \<Longrightarrow> normalize_penalty t = Inl ValueError"
  by (simp add: normalize_penalty_def py_float_rejects_iff)

lemma normalize_penalty_accepts:
  "penalty_text t \<noteq> [] \<Longrightarrow> float_literal (penalty_text t)
   \<Longrightarrow> \<exists>v. normalize_penalty t = Inr v"
  by (simp add: normalize_penalty_def py_float_accepts_iff)

lemma scrape_violation_tracker_contributions:
  assumes "\<And>k acc. k \<in> {1, 2, 3} \<Longrightarrow> snd (scrape_page web k acc) = acc @ d k"
  shows "snd (scrape_violation_tracker web) = d 1 @ d 2 @ d 3"
proof -
  have p: "snd (scrape_page web 1 acc) = acc @ d 1" "snd (scrape_page web 2 acc) = acc @ d 2"
    "snd (scrape_page web 3 acc) = acc @ d 3" for acc
    using assms by simp_all
  show ?thesis
    unfolding scrape_violation_tracker_pages snd_conv p by simp
qed

lemma scrape_violation_tracker_events:
  "set (fst (scrape_violation_tracker web)) =
     set (fst (scrape_page web 1 []))
     \<union> set (fst (scrape_page web 2 (snd (scrape_page web 1 []))))
     \<union> set (fst (scrape_page web 3 (snd (scrape_page web 2 (snd (scrape_page web 1 []))))))"
  unfolding scrape_violation_tracker_pages fst_conv by (simp add: Un_assoc)

text \<open>
  Claim C5, as stated, fails: the cell \<^verbatim>\<open>nan\<close> is not empty after cleaning and is not a
  number, yet normalization accepts it, and the row gives a record.
\<close>

theorem penalty_not_numeric_counterexample:
  "penalty_text ''nan'' = ''nan''
   \<and> \<not> decimal_numeral ''nan''
   \<and> normalize_penalty ''nan'' = Inr NaN
   \<and> normalize_row nan_row = Inr echo"
proof -
  have "parse_decimal ''nan'' = None"
    by (simp add: number_defs)
  then have "\<not> decimal_numeral ''nan''"
    using parse_decimal_iff [of "''nan''"] by simp
  moreover have "penalty_text ''nan'' = ''nan''"
    by (simp add: text_defs)
  moreover have "normalize_penalty ''nan'' = Inr NaN"
    by (simp add: normalize_penalty_def text_defs number_defs)
  moreover have "normalize_row nan_row = Inr echo"
    by (simp add: normalize_row_def normalize_penalty_def nan_row_def echo_def text_defs
        number_defs)
  ultimately show ?thesis by blast
qed

text \<open>
  Claim C5, amended. The text handed to \<^verbatim>\<open>float\<close> is the trimmed cell with every \<^verbatim>\<open>$\<close> and
  every \<^verbatim>\<open>,\<close> deleted and nothing else changed. When that text is empty the penalty
  amount is 0.0. When it is non-empty, normalization raises \<^verbatim>\<open>ValueError\<close> if the text is
  not a float literal, and gives a value if it is one; the words \<^verbatim>\<open>inf\<close>, \<^verbatim>\<open>infinity\<close>
  and \<^verbatim>\<open>nan\<close> are float literals. When the first row of a page that fails is such a row,
  the run returns, in page order, what the other pages contribute and, for that page,
  the records of the rows before the failing one; the error is logged for that page.
\<close>

theorem normalize_penalty_float_literal:
  "penalty_text t = filter (\<lambda>c. c \<noteq> CHR ''$'' \<and> c \<noteq> CHR '','') (strip t)
   \<and> (penalty_text t = [] \<longrightarrow> normalize_penalty t = Inr (Finite 0))
   \<and> (penalty_text t \<noteq> [] \<and> \<not> float_literal (penalty_text t)
        \<longrightarrow> normalize_penalty t = Inl ValueError)
   \<and> (penalty_text t \<noteq> [] \<and> float_literal (penalty_text t)
        \<longrightarrow> (\<exists>v. normalize_penalty t = Inr v))
   \<and> (penalty_text t \<noteq> [] \<and> \<not> float_literal (penalty_text t)
        \<and> 7 \<le> length r \<and> r ! 6 = t
        \<and> page \<in> {1, 2, 3}
        \<and> snd (fetch_page (web page)) = Inr (Soup (Some (ViewsTable (Some (pre @ r # post)))))
        \<and> map normalize_row pre = map Inr vs
        \<and> (\<forall>k \<in> {1, 2, 3} - {page}. \<forall>acc. snd (scrape_page web k acc) = acc @ c k)
        \<longrightarrow> normalize_row r = Inl ValueError
          \<and> snd (scrape_violation_tracker web)
              = concat (map (\<lambda>k. if k = page then vs else c k) [1, 2, 3])
          \<and> LogPageError page ValueError \<in> set (fst (scrape_violation_tracker web)))"
proof -
  have run: "normalize_row r = Inl ValueError
      \<and> snd (scrape_violation_tracker web)
          = concat (map (\<lambda>k. if k = page then vs else c k) [1, 2, 3])
      \<and> LogPageError page ValueError \<in> set (fst (scrape_violation_tracker web))"
    if h: "penalty_text t \<noteq> []" "\<not> float_literal (penalty_text t)" "7 \<le> length r" "r ! 6 = t"
      "page \<in> {1, 2, 3}"
      "snd (fetch_page (web page)) = Inr (Soup (Some (ViewsTable (Some (pre @ r # post)))))"
      "map normalize_row pre = map Inr vs"
      "\<forall>k \<in> {1, 2, 3} - {page}. \<forall>acc. snd (scrape_page web k acc) = acc @ c k"
  proof -
    from normalize_penalty_rejects [OF h(1,2)] h(3,4) have r: "normalize_row r = Inl ValueError"
      by (simp add: normalize_row_penalty_error)
    have row: "scrape_page web page acc =
        (Sleep 10 # fst (fetch_page (web page)) @ [LogPageError page ValueError], acc @ vs)"
      for acc
      by (rule scrape_page_row_error [where web = web and page = page, OF h(6,7) r])
    define d where "d k = (if k = page then vs else c k)" for k
    have contrib: "snd (scrape_page web k acc) = acc @ d k" if "k \<in> {1, 2, 3}" for k acc
    proof (cases "k = page")
      case True
      then show ?thesis by (simp add: row d_def)
    next
      case False
      with that h(8) show ?thesis by (simp add: d_def)
    qed
    have "snd (scrape_violation_tracker web) = d 1 @ d 2 @ d 3"
      by (rule scrape_violation_tracker_contributions) (rule contrib)
    then have res: "snd (scrape_violation_tracker web)
        = concat (map (\<lambda>k. if k = page then vs else c k) [1, 2, 3])"
      by (simp add: d_def)
    have ev: "LogPageError page ValueError \<in> set (fst (scrape_page web page acc))" for acc
      by (simp add: row)
    from h(5) consider "page = 1" | "page = 2" | "page = 3" by auto
    then have "LogPageError page ValueError \<in> set (fst (scrape_violation_tracker web))"
    proof cases
      case 1
      with ev [of "[]"] show ?thesis
        by (simp add: scrape_violation_tracker_events)
    next
      case 2
      with ev [of "snd (scrape_page web 1 [])"] show ?thesis
        by (simp add: scrape_violation_tracker_events)
    next
      case 3
      with ev [of "snd (scrape_page web 2 (snd (scrape_page web 1 [])))"] show ?thesis
        by (simp add: scrape_violation_tracker_events)
    qed
    with r res show ?thesis by blast
  qed
  have empty: "penalty_text t = [] \<longrightarrow> normalize_penalty t = Inr (Finite 0)"
    by (simp add: normalize_penalty_def)
  from penalty_text_filter [of t] empty normalize_penalty_rejects [of t]
    normalize_penalty_accepts [of t] run
  show ?thesis by blast
qed

lemma fetch_page_site_bad_middle:
  "fetch_page (site_bad_middle 1) = ([], Inr (Soup (Some (ViewsTable (Some [bolt_row])))))"
  "fetch_page (site_bad_middle 2) =
     ([], Inr (Soup (Some (ViewsTable (Some ([acme_row] @ cargo_row # [bolt_row]))))))"
  "fetch_page (site_bad_middle 3) = ([], Inr (Soup (Some (ViewsTable (Some [refund_row])))))"
  by (simp_all add: fetch_page_unrolled site_bad_middle_def page_of_def)

theorem normalize_penalty_float_literal_witness:
  "penalty_text ''$1,250.00'' = ''1250.00''
   \<and> penalty_text '' $ '' = [] \<and> normalize_penalty '' $ '' = Inr (Finite 0)
   \<and> penalty_text ''N/A'' \<noteq> [] \<and> py_float (penalty_text ''N/A'') = Inl ValueError
   \<and> normalize_penalty ''N/A'' = Inl ValueError
   \<and> penalty_text ''$1,250.00'' \<noteq> []
   \<and> py_float (penalty_text ''$1,250.00'') = Inr (Finite 1250)
   \<and> (\<exists>v. normalize_penalty ''$1,250.00'' = Inr v)
   \<and> 7 \<le> length cargo_row \<and> cargo_row ! 6 = ''N/A''
   \<and> snd (fetch_page (site_bad_middle 2))
       = Inr (Soup (Some (ViewsTable (Some ([acme_row] @ cargo_row # [bolt_row])))))
   \<and> map normalize_row [acme_row] = map Inr [acme]
   \<and> snd (scrape_page site_bad_middle 1 []) = [bolt]
   \<and> snd (scrape_page site_bad_middle 3 [bolt, acme]) = [bolt, acme, refund]
   \<and> normalize_row cargo_row = Inl ValueError
   \<and> snd (scrape_violation_tracker site_bad_middle) = [bolt, acme, refund]
   \<and> LogPageError 2 ValueError \<in> set (fst (scrape_violation_tracker site_bad_middle))"
proof -
  have a: "penalty_text ''$1,250.00'' = ''1250.00''"
    using normalize_penalty_float_literal [of "''$1,250.00''"]
    by (simp add: strip_def isspace_def)
  have b0: "penalty_text '' $ '' = []"
    by (simp add: text_defs)
  with normalize_penalty_float_literal [of "'' $ ''"]
  have b: "normalize_penalty '' $ '' = Inr (Finite 0)" by blast
  have c0: "penalty_text ''N/A'' \<noteq> []"
    by (simp add: text_defs)
  have c2: "py_float (penalty_text ''N/A'') = Inl ValueError"
    by (simp add: text_defs number_defs)
  then have c1: "\<not> float_literal (penalty_text ''N/A'')"
    using py_float_rejects_iff [of "penalty_text ''N/A''"] by blast
  have d0: "penalty_text ''$1,250.00'' \<noteq> []"
    by (simp add: text_defs)
  have d2: "py_float (penalty_text ''$1,250.00'') = Inr (Finite 1250)"
    by (simp add: text_defs number_defs)
  then have d1: "float_literal (penalty_text ''$1,250.00'')"
    using py_float_accepts_iff [of "penalty_text ''$1,250.00''"] by blast
  from normalize_penalty_float_literal [of "''$1,250.00''"] d0 d1
  have d: "\<exists>v. normalize_penalty ''$1,250.00'' = Inr v" by blast
  have r: "7 \<le> length cargo_row" "cargo_row ! 6 = ''N/A''"
    by (simp_all add: cargo_row_def)
  have pg: "(2 :: nat) \<in> {1, 2, 3}" by simp
  have f2: "snd (fetch_page (site_bad_middle 2)) =
      Inr (Soup (Some (ViewsTable (Some ([acme_row] @ cargo_row # [bolt_row])))))"
    by (simp only: fetch_page_site_bad_middle snd_conv)
  have pre: "map normalize_row [acme_row] = map Inr [acme]"
    by (simp add: normalize_acme_row)
  have f1: "snd (fetch_page (site_bad_middle 1)) = Inr (Soup (Some (ViewsTable (Some [bolt_row]))))"
    and f3: "snd (fetch_page (site_bad_middle 3)) = Inr (Soup (Some (ViewsTable (Some [refund_row]))))"
    by (simp_all only: fetch_page_site_bad_middle snd_conv)
  have n1: "map normalize_row [bolt_row] = map Inr [bolt]"
    and n3: "map normalize_row [refund_row] = map Inr [refund]"
    by (simp_all add: normalize_bolt_row normalize_refund_row)
  have o1: "snd (scrape_page site_bad_middle 1 acc) = acc @ outer_pages 1" for acc
    using scrape_page_all_ok [where web = site_bad_middle and page = 1 and records = acc,
        OF f1 n1]
    by (simp add: outer_pages_def)
  have o3: "snd (scrape_page site_bad_middle 3 acc) = acc @ outer_pages 3" for acc
    using scrape_page_all_ok [where web = site_bad_middle and page = 3 and records = acc,
        OF f3 n3]
    by (simp add: outer_pages_def)
  have others: "\<forall>k \<in> {1, 2, 3} - {2}. \<forall>acc.
      snd (scrape_page site_bad_middle k acc) = acc @ outer_pages k"
    using o1 o3 by auto
  from normalize_penalty_float_literal [where t = "''N/A''" and r = cargo_row
      and web = site_bad_middle and page = 2 and pre = "[acme_row]" and post = "[bolt_row]"
      and vs = "[acme]" and c = outer_pages]
    c0 c1 r pg f2 pre others
  have e: "normalize_penalty ''N/A'' = Inl ValueError"
    "normalize_row cargo_row = Inl ValueError"
    "snd (scrape_violation_tracker site_bad_middle)
       = concat (map (\<lambda>k. if k = 2 then [acme] else outer_pages k) [1, 2, 3])"
    "LogPageError 2 ValueError \<in> set (fst (scrape_violation_tracker site_bad_middle))"
    by blast+
  from e(3) have e3: "snd (scrape_violation_tracker site_bad_middle) = [bolt, acme, refund]"
    by (simp add: outer_pages_def)
  have q1: "snd (scrape_page site_bad_middle 1 []) = [bolt]"
    using o1 [of "[]"] by (simp add: outer_pages_def)
  have q3: "snd (scrape_page site_bad_middle 3 [bolt, acme]) = [bolt, acme, refund]"
    using o3 [of "[bolt, acme]"] by (simp add: outer_pages_def)
  from a b0 b c0 c2 e(1) d0 d2 d r f2 pre q1 q3 e(2) e3 e(4) show ?thesis by blast
qed

text \<open>
  Claim C6, as stated, fails: a penalty cell with a minus sign is accepted and gives a
  negative amount, and the cell \<^verbatim>\<open>nan\<close> is accepted and gives a value for which
  \<^verbatim>\<open>>= 0\<close> is false.
\<close>

theorem penalty_amount_nonnegative_counterexample:
  "normalize_row refund_row = Inr refund
   \<and> penalty_amount refund = Finite (- 5)
   \<and> \<not> float_ge0 (penalty_amount refund)
   \<and> normalize_penalty ''nan'' = Inr NaN
   \<and> \<not> float_ge0 NaN"
proof -
  have "normalize_penalty ''nan'' = Inr NaN"
    by (simp add: normalize_penalty_def text_defs number_defs)
  then show ?thesis
    by (simp add: normalize_refund_row) (simp add: refund_def)
qed

text \<open>
  Claim C6, amended. The penalty amount of an accepted cell is non-negative when the
  text left after trimming and deleting \<^verbatim>\<open>$\<close> and \<^verbatim>\<open>,\<close> contains no minus sign and the
  result is not \<^verbatim>\<open>nan\<close>.
\<close>

theorem penalty_amount_nonnegative_unsigned:
  assumes "normalize_penalty t = Inr v"
    and "CHR ''-'' \<notin> set (penalty_text t)"
    and "v \<noteq> NaN"
  shows "float_ge0 v"
proof (cases "penalty_text t = []")
  case True
  with assms(1) show ?thesis by (auto simp: normalize_penalty_def)
next
  case False
  with assms(1) have "py_float (penalty_text t) = Inr v"
    by (simp add: normalize_penalty_def)
  from py_float_no_minus [OF this assms(2,3)] show ?thesis .
qed

theorem penalty_amount_nonnegative_unsigned_witness:
  "normalize_penalty ''$1,250.00'' = Inr (Finite 1250)
   \<and> CHR ''-'' \<notin> set (penalty_text ''$1,250.00'')
   \<and> Finite 1250 \<noteq> NaN
   \<and> float_ge0 (Finite 1250)"
proof -
  have h1: "normalize_penalty ''$1,250.00'' = Inr (Finite 1250)"
    by (simp add: normalize_penalty_def text_defs number_defs)
  have h2: "CHR ''-'' \<notin> set (penalty_text ''$1,250.00'')"
    by (simp add: text_defs)
  have h3: "Finite 1250 \<noteq> NaN" by simp
  from penalty_amount_nonnegative_unsigned [OF h1 h2 h3] h1 h2 h3 show ?thesis by blast
qed

text \<open>
  Claim C8. For a row with at least seven cells whose penalty and year cells parse,
  whatever its text cells are, a record is produced in which company, offense type and
  agency are the trimmed cells (the empty string for an empty or blank cell) and parent
  and parent industry are the trimmed cells, or \<^verbatim>\<open>None\<close> when the trimmed cell is empty.
  Trimming a text removes a run of whitespace at each end and nothing else, and leaves
  no whitespace at either end.
\<close>

theorem normalize_row_text_fields:
  assumes "7 \<le> length cols"
    and "normalize_penalty (cols ! 6) = Inr p"
    and "py_int (strip (cols ! 4)) = Inr y"
  shows "\<exists>v. normalize_row cols = Inr v
    \<and> company v = strip (cols ! 0)
    \<and> primary_offense_type v = strip (cols ! 3)
    \<and> agency v = strip (cols ! 5)
    \<and> current_parent v = (if strip (cols ! 1) = [] then None else Some (strip (cols ! 1)))
    \<and> current_parent_industry v
        = (if strip (cols ! 2) = [] then None else Some (strip (cols ! 2)))
    \<and> (\<forall>s. (\<exists>pre post. s = pre @ strip s @ post \<and> list_all isspace pre \<and> list_all isspace post)
          \<and> (strip s \<noteq> [] \<longrightarrow> \<not> isspace (hd (strip s)) \<and> \<not> isspace (last (strip s)))
          \<and> (list_all isspace s \<longrightarrow> strip s = []))"
proof -
  have trim: "\<forall>s. (\<exists>pre post. s = pre @ strip s @ post \<and> list_all isspace pre \<and> list_all isspace post)
      \<and> (strip s \<noteq> [] \<longrightarrow> \<not> isspace (hd (strip s)) \<and> \<not> isspace (last (strip s)))
      \<and> (list_all isspace s \<longrightarrow> strip s = [])"
    using strip_decomposition strip_ends strip_blank by blast
  from assms have "normalize_row cols =
      Inr \<lparr>company = strip (cols ! 0),
           current_parent = or_none (strip (cols ! 1)),
           current_parent_industry = or_none (strip (cols ! 2)),
           primary_offense_type = strip (cols ! 3),
           year = y,
           agency = strip (cols ! 5),
           penalty_amount = p\<rparr>"
    by (simp add: normalize_row_def)
  then show ?thesis using trim by (simp add: or_none_def)
qed

theorem normalize_row_text_fields_witness:
  "7 \<le> length blank_row
   \<and> normalize_penalty (blank_row ! 6) = Inr (Finite 0)
   \<and> py_int (strip (blank_row ! 4)) = Inr 2019
   \<and> (\<exists>v. normalize_row blank_row = Inr v \<and> company v = [] \<and> primary_offense_type v = []
          \<and> agency v = [] \<and> current_parent v = None \<and> current_parent_industry v = None)"
proof -
  have h1: "7 \<le> length blank_row" by (simp add: blank_row_def)
  have h2: "normalize_penalty (blank_row ! 6) = Inr (Finite 0)"
    by (simp add: blank_row_def normalize_penalty_def text_defs)
  have h3: "py_int (strip (blank_row ! 4)) = Inr 2019"
    by (simp add: blank_row_def text_defs number_defs)
  have cells: "strip (blank_row ! 0) = []" "strip (blank_row ! 1) = []" "strip (blank_row ! 2) = []"
    "strip (blank_row ! 3) = []" "strip (blank_row ! 5) = []"
    by (simp_all add: blank_row_def text_defs)
  from normalize_row_text_fields [OF h1 h2 h3] h1 h2 h3 show ?thesis
    by (simp only: cells if_True simp_thms) blast
qed

section \<open>Page Fetcher: retry policy\<close>

lemma wait_exponential_schedule:
  "wait_exponential 1 2 10 n = (if n \<le> 2 then 2 else if n = 3 then 4 else if n = 4 then 8 else 10)"
proof -
  consider "n = 0" | "n = 1" | "n = 2" | "n = 3" | "n = 4" | "5 \<le> n" by linarith
  then show ?thesis
  proof cases
    case 6
    then have "(2::nat) ^ 4 \<le> 2 ^ (n - 1)" by (intro power_increasing) simp_all
    then have "(10::nat) \<le> 2 ^ (n - 1)" by simp
    with 6 show ?thesis by (simp add: wait_exponential_def min_def max_def)
  qed (simp_all add: wait_exponential_def)
qed

text \<open>
  Claim C7, as stated, fails in the wait between attempts: when all three attempts end in
  an HTTP error, the call waits 2 seconds after the first attempt and 2 seconds again
  after the second; the second wait is not the double of the first.
\<close>

theorem fetch_page_wait_counterexample:
  "site_page2_down 2 1 = Raise HTTPError
   \<and> site_page2_down 2 2 = Raise HTTPError
   \<and> site_page2_down 2 3 = Raise HTTPError
   \<and> fetch_page (site_page2_down 2) =
       ([LogRetrying 1, Sleep 2, LogRetrying 2, Sleep 2], Inl (RetryError HTTPError))"
  using fetch_page_site_page2_down(3) by (simp add: site_page2_down_def)

text \<open>
  Claim C7, amended. \<^verbatim>\<open>fetch_page\<close> runs at most three attempts. A failed attempt is
  followed by another one only when it raised \<^verbatim>\<open>HTTPError\<close> and was not the third; any
  other exception is raised to the caller at once. Before each retry the number of the
  failed attempt is logged and the call sleeps; the wait after failed attempt \<open>n\<close> is
  \<^verbatim>\<open>max(2, min(2 ** (n - 1), 10))\<close>, that is 2 after the first and after the second
  attempt (4, 8 and then 10 for later attempt numbers, which three attempts never
  reach). When the third attempt raises \<^verbatim>\<open>HTTPError\<close>, \<^verbatim>\<open>RetryError\<close> around it is raised
  to the caller.
\<close>

theorem fetch_page_retry_policy:
  "fetch_page srv =
     (case srv 1 of
        Body b \<Rightarrow> ([], Inr b)
      | Raise e \<Rightarrow>
          if e \<noteq> HTTPError then ([], Inl e)
          else (case srv 2 of
                  Body b \<Rightarrow> ([LogRetrying 1, Sleep 2], Inr b)
                | Raise e \<Rightarrow>
                    if e \<noteq> HTTPError then ([LogRetrying 1, Sleep 2], Inl e)
                    else (case srv 3 of
                            Body b \<Rightarrow> ([LogRetrying 1, Sleep 2, LogRetrying 2, Sleep 2], Inr b)
                          | Raise e \<Rightarrow>
                              if e \<noteq> HTTPError
                              then ([LogRetrying 1, Sleep 2, LogRetrying 2, Sleep 2], Inl e)
                              else ([LogRetrying 1, Sleep 2, LogRetrying 2, Sleep 2],
                                    Inl (RetryError HTTPError)))))
   \<and> wait_exponential 1 2 10 n
       = (if n \<le> 2 then 2 else if n = 3 then 4 else if n = 4 then 8 else 10)"
proof -
  have r: "retry_if_http_error e = (e = HTTPError)" for e
    by (cases e) simp_all
  show ?thesis
  proof (rule conjI)
    show "wait_exponential 1 2 10 n
        = (if n \<le> 2 then 2 else if n = 3 then 4 else if n = 4 then 8 else 10)"
      by (rule wait_exponential_schedule)
  qed (simp add: fetch_page_unrolled r split: response.splits)
qed

theorem fetch_page_retry_policy_witness:
  "fetch_page flaky_server =
     ([LogRetrying 1, Sleep 2], Inr (Soup (Some (ViewsTable (Some [acme_row])))))
   \<and> fetch_page timeout_server = ([], Inl SocketTimeout)
   \<and> wait_exponential 1 2 10 1 = 2
   \<and> wait_exponential 1 2 10 2 = 2
   \<and> wait_exponential 1 2 10 3 = 4
   \<and> wait_exponential 1 2 10 4 = 8
   \<and> wait_exponential 1 2 10 5 = 10"
proof -
  have a: "fetch_page flaky_server =
      ([LogRetrying 1, Sleep 2], Inr (Soup (Some (ViewsTable (Some [acme_row])))))"
    using fetch_page_retry_policy [of flaky_server 1]
    by (simp add: flaky_server_def page_of_def)
  have b: "fetch_page timeout_server = ([], Inl SocketTimeout)"
    using fetch_page_retry_policy [of timeout_server 1]
    by (simp add: timeout_server_def)
  have c: "wait_exponential 1 2 10 1 = 2" "wait_exponential 1 2 10 2 = 2"
    "wait_exponential 1 2 10 3 = 4" "wait_exponential 1 2 10 4 = 8"
    "wait_exponential 1 2 10 5 = 10"
    using fetch_page_retry_policy [of flaky_server 1] fetch_page_retry_policy [of flaky_server 2]
      fetch_page_retry_policy [of flaky_server 3] fetch_page_retry_policy [of flaky_server 4]
      fetch_page_retry_policy [of flaky_server 5]
    by simp_all
  from a b c show ?thesis by blast
qed

section \<open>Entry points: the run log\<close>

lemma scrape_site_page2_down:
  "scrape_violation_tracker site_page2_down =
     ([Sleep 10, LogScraped 1 1,
       Sleep 10, LogRetrying 1, Sleep 2, LogRetrying 2, Sleep 2,
       LogPageError 2 (RetryError HTTPError),
       Sleep 10, LogScraped 1 3], [acme, bolt])"
proof -
  have f1: "snd (fetch_page (site_page2_down 1)) = Inr (Soup (Some (ViewsTable (Some [acme_row]))))"
    and f2: "snd (fetch_page (site_page2_down 2)) = Inl (RetryError HTTPError)"
    and f3: "snd (fetch_page (site_page2_down 3)) = Inr (Soup (Some (ViewsTable (Some [bolt_row]))))"
    by (simp_all only: fetch_page_site_page2_down snd_conv)
  have n1: "map normalize_row [acme_row] = map Inr [acme]"
    and n3: "map normalize_row [bolt_row] = map Inr [bolt]"
    by (simp_all add: normalize_acme_row normalize_bolt_row)
  have p1: "scrape_page site_page2_down 1 [] = ([Sleep 10, LogScraped 1 1], [acme])"
    using scrape_page_all_ok [where web = site_page2_down and page = 1 and records = "[]",
        OF f1 n1]
    by (simp add: fetch_page_site_page2_down(1) [simplified])
  have p2: "scrape_page site_page2_down 2 [acme] =
      ([Sleep 10, LogRetrying 1, Sleep 2, LogRetrying 2, Sleep 2,
        LogPageError 2 (RetryError HTTPError)], [acme])"
    using scrape_page_fetch_error [where web = site_page2_down and page = 2
        and records = "[acme]", OF f2]
    by (simp add: fetch_page_site_page2_down(3))
  have p3: "scrape_page site_page2_down 3 [acme] = ([Sleep 10, LogScraped 1 3], [acme, bolt])"
    using scrape_page_all_ok [where web = site_page2_down and page = 3 and records = "[acme]",
        OF f3 n3]
    by (simp add: fetch_page_site_page2_down(2))
  show ?thesis
    unfolding scrape_violation_tracker_pages p1 snd_conv fst_conv p2 p3 by simp
qed

lemma scrape_site_down:
  "scrape_violation_tracker site_down =
     ([Sleep 10, LogPageError 1 URLError, Sleep 10, LogPageError 2 URLError,
       Sleep 10, LogPageError 3 URLError], [])"
proof -
  have f: "fetch_page (site_down page) = ([], Inl URLError)" for page
    by (simp add: fetch_page_unrolled site_down_def)
  have p: "scrape_page site_down page [] = ([Sleep 10, LogPageError page URLError], [])" for page
    using scrape_page_fetch_error [where web = site_down and page = page and records = "[]"
        and e = URLError]
    by (simp add: f)
  show ?thesis
    unfolding scrape_violation_tracker_pages p snd_conv fst_conv by simp
qed

lemmas run_defs = connect_to_db_def create_table_def store_records_def save_logs_def
  save_logs_scraper_def verify_results_def

lemma main_scraper_returns: "fst (snd (main_scraper e w)) = Returned"
  by (cases "scrape_violation_tracker (site e)")
    (simp add: main_scraper_def run_defs Let_def split: option.splits)

text \<open>
  Claim C9 holds for \<^verbatim>\<open>main.py\<close> and fails for \<^verbatim>\<open>scraper.py\<close>. In a run that stored two
  records and whose log write fails, \<^verbatim>\<open>main\<close> of \<^verbatim>\<open>scraper.py\<close> ends by raising the
  error of the write, which it has not logged; \<^verbatim>\<open>main_scraper\<close> of \<^verbatim>\<open>main.py\<close> logs
  the error and returns. In both, the stored records stay stored.
\<close>

theorem log_write_failure_run:
  "fst (snd (scraper_main (env_of site_page2_down False) world0)) = Raised OSError
   \<and> LogSaveError OSError \<notin> set (fst (scraper_main (env_of site_page2_down False) world0))
   \<and> db (snd (snd (scraper_main (env_of site_page2_down False) world0))) = Some [acme, bolt]
   \<and> fst (snd (main_scraper (env_of site_page2_down False) world0)) = Returned
   \<and> LogSaveError OSError \<in> set (fst (main_scraper (env_of site_page2_down False) world0))
   \<and> db (snd (snd (main_scraper (env_of site_page2_down False) world0))) = Some [acme, bolt]"
proof -
  have k: "unique_key bolt \<noteq> unique_key acme"
    by (simp add: unique_key_def acme_def bolt_def)
  have s: "scraper_main (env_of site_page2_down False) world0 =
      (LogConnected # LogCreatedTable # fst (scrape_violation_tracker site_page2_down)
         @ [LogStored 2, LogConnectionClosed],
       Raised OSError, \<lparr>db = Some [acme, bolt], logs = Map.empty\<rparr>)"
    by (simp add: scraper_main_def env_of_def world0_def run_defs scrape_site_page2_down
        insert_ignore_def k)
  have m: "main_scraper (env_of site_page2_down False) world0 =
      (LogConnected # LogCreatedTable # fst (scrape_violation_tracker site_page2_down)
         @ [LogStored 2, LogSaveError OSError, LogFinished],
       Returned, \<lparr>db = Some [acme, bolt], logs = Map.empty\<rparr>)"
    by (simp add: main_scraper_def env_of_def world0_def run_defs scrape_site_page2_down
        insert_ignore_def k)
  show ?thesis
    unfolding s m by (simp add: scrape_site_page2_down)
qed

text \<open>
  Claim C10 holds for \<^verbatim>\<open>scraper.py\<close> and fails for \<^verbatim>\<open>main.py\<close>. In a run that collects
  zero records, with the database and the log sink in order, \<^verbatim>\<open>main\<close> of \<^verbatim>\<open>scraper.py\<close>
  returns having written one run log with \<^verbatim>\<open>records_processed\<close> 0; \<^verbatim>\<open>main_scraper\<close> of
  \<^verbatim>\<open>main.py\<close> returns having logged that no records were scraped and written no run
  log.
\<close>

theorem zero_record_run_log:
  "snd (scrape_violation_tracker (site (env_of site_down True))) = []
   \<and> fst (snd (scraper_main (env_of site_down True) world0)) = Returned
   \<and> logs (snd (snd (scraper_main (env_of site_down True) world0)))
       = [1700000000 \<mapsto> \<lparr>timestamp = 1700000000, records_processed = 0\<rparr>]
   \<and> fst (snd (main_scraper (env_of site_down True) world0)) = Returned
   \<and> LogNoRecords \<in> set (fst (main_scraper (env_of site_down True) world0))
   \<and> LogSavedLog \<notin> set (fst (main_scraper (env_of site_down True) world0))
   \<and> logs (snd (snd (main_scraper (env_of site_down True) world0))) = Map.empty"
proof -
  have m: "main_scraper (env_of site_down True) world0 =
      (LogConnected # LogCreatedTable # fst (scrape_violation_tracker site_down)
         @ [LogNoRecords, LogFinished],
       Returned, \<lparr>db = Some [], logs = Map.empty\<rparr>)"
    by (simp add: main_scraper_def env_of_def world0_def run_defs scrape_site_down)
  have s: "scraper_main (env_of site_down True) world0 =
      (LogConnected # LogCreatedTable # fst (scrape_violation_tracker site_down)
         @ [LogSavedLog, LogConnectionClosed],
       Returned,
       \<lparr>db = Some [],
        logs = [1700000000 \<mapsto> \<lparr>timestamp = 1700000000, records_processed = 0\<rparr>]\<rparr>)"
    by (simp add: scraper_main_def env_of_def world0_def run_defs scrape_site_down)
  show ?thesis
    unfolding m s by (simp add: env_of_def scrape_site_down)
qed

end
